(* ===== verification/Nhtl_Prelude.thy ===== *)
theory Nhtl_Prelude
  imports Main "HOL-Library.Word"
begin

text \<open>
  Shared vocabulary of the development: the machine integers of the library, the bit-field
  primitives that every register file of \<^verbatim>\<open>src/nhtl-extoll/configure_fpga.cpp\<close> is
  written with, the laws a field accessor can obey (as locales), and the sequencing of
  fallible, state-changing calls.

  Collections: \<open>rf_defs\<close> holds the definitions of the register files' constructors and
  accessors, \<open>bf_simps\<close> the laws of the bit-field primitives, \<open>lit_mask\<close> the hexadecimal
  masks of the source as \<^term>\<open>mask\<close>.
\<close>

unbundle bit_operations_syntax

named_theorems rf_defs
named_theorems bf_simps
named_theorems lit_mask

type_synonym u8 = "8 word"
type_synonym u16 = "16 word"
type_synonym u32 = "32 word"
type_synonym u64 = "64 word"

subsection \<open>Bit fields of a 64-bit word\<close>

text \<open>
  The three idioms of the source: \<^verbatim>\<open>raw >> off & m\<close>, \<^verbatim>\<open>raw |= (v & m) << off\<close>
  and \<^verbatim>\<open>raw &= ~(m << off)\<close>.
\<close>

definition bf_read :: "nat \<Rightarrow> u64 \<Rightarrow> u64 \<Rightarrow> u64" where
  "bf_read off m raw = drop_bit off raw AND m"

definition bf_or :: "nat \<Rightarrow> u64 \<Rightarrow> u64 \<Rightarrow> u64 \<Rightarrow> u64" where
  "bf_or off m v raw = raw OR push_bit off (v AND m)"

definition bf_clear :: "nat \<Rightarrow> u64 \<Rightarrow> u64 \<Rightarrow> u64" where
  "bf_clear off m raw = raw AND NOT (push_bit off m)"

lemma bit_bf_read:
  "bit (bf_read k (mask w) raw) n \<longleftrightarrow> n < w \<and> n < 64 \<and> bit raw (k + n)"
  by (auto simp: bf_read_def bit_simps dest: bit_imp_le_length)

lemma bit_bf_or:
  "bit (bf_or k (mask w) v raw) n
   \<longleftrightarrow> bit raw n \<or> (k \<le> n \<and> n < k + w \<and> n < 64 \<and> bit v (n - k))"
  by (auto simp: bf_or_def bit_simps dest: bit_imp_le_length)

lemma bit_bf_clear:
  "bit (bf_clear k (mask w) raw) n \<longleftrightarrow> bit raw n \<and> \<not> (k \<le> n \<and> n < k + w)"
  by (auto simp: bf_clear_def bit_simps dest: bit_imp_le_length)

lemmas bf_bits = bit_bf_read bit_bf_or bit_bf_clear

lemma bf_read_0 [bf_simps]: "bf_read k m 0 = 0"
  by (simp add: bf_read_def)

lemma bf_read_or [bf_simps]:
  "k + w \<le> 64 \<Longrightarrow>
   bf_read k (mask w) (bf_or k (mask w) v raw) = bf_read k (mask w) raw OR take_bit w v"
  by (rule bit_eqI) (auto simp: bf_bits bit_simps)

lemma bf_read_clear [bf_simps]: "bf_read k (mask w) (bf_clear k (mask w) raw) = 0"
  by (rule bit_eqI) (auto simp: bf_bits)

lemma bf_read_or_disjoint [bf_simps]:
  "k + w \<le> k' \<or> k' + w' \<le> k \<Longrightarrow>
   bf_read k (mask w) (bf_or k' (mask w') v raw) = bf_read k (mask w) raw"
  by (rule bit_eqI) (auto simp: bf_bits)

lemma bf_read_clear_disjoint [bf_simps]:
  "k + w \<le> k' \<or> k' + w' \<le> k \<Longrightarrow>
   bf_read k (mask w) (bf_clear k' (mask w') raw) = bf_read k (mask w) raw"
  by (rule bit_eqI) (auto simp: bf_bits)

lemma bf_write_write [bf_simps]:
  "bf_or k (mask w) u (bf_clear k (mask w) (bf_or k (mask w) v (bf_clear k (mask w) raw)))
   = bf_or k (mask w) u (bf_clear k (mask w) raw)"
  by (rule bit_eqI) (auto simp: bf_bits)

lemma bf_write_read [bf_simps]:
  "bf_or k (mask w) (bf_read k (mask w) raw) (bf_clear k (mask w) raw) = raw"
  by (rule bit_eqI) (auto simp: bf_bits)

lemma bf_or_take [bf_simps]: "bf_or k (mask w) (take_bit w v) raw = bf_or k (mask w) v raw"
  by (rule bit_eqI) (auto simp: bf_bits bit_simps)

lemma bf_or_or [bf_simps]: "bf_or k (mask w) u (bf_or k (mask w) v raw) = bf_or k (mask w) (u OR v) raw"
  by (rule bit_eqI) (auto simp: bf_bits bit_simps)

lemma bf_or_commute: "bf_or k m u (bf_or k' m' v raw) = bf_or k' m' v (bf_or k m u raw)"
  by (simp add: bf_or_def or.left_commute or.commute or.assoc)

lemma bf_or_clear_commute:
  "k + w \<le> k' \<or> k' + w' \<le> k \<Longrightarrow>
   bf_clear k' (mask w') (bf_or k (mask w) u raw) = bf_or k (mask w) u (bf_clear k' (mask w') raw)"
  by (rule bit_eqI) (auto simp: bf_bits)

lemma bf_clear_commute: "bf_clear k m (bf_clear k' m' raw) = bf_clear k' m' (bf_clear k m raw)"
  by (simp add: bf_clear_def and.left_commute and.commute and.assoc)

text \<open>Two field writes at disjoint positions commute.\<close>

lemma bf_write_commute:
  assumes "k + w \<le> k' \<or> k' + w' \<le> k"
  shows "bf_or k (mask w) u (bf_clear k (mask w) (bf_or k' (mask w') v (bf_clear k' (mask w') raw)))
       = bf_or k' (mask w') v (bf_clear k' (mask w') (bf_or k (mask w) u (bf_clear k (mask w) raw)))"
  by (rule bit_eqI) (use assms in \<open>auto simp: bf_bits\<close>)

text \<open>The masks of the source as numbers of low one bits.\<close>

lemma lit_masks [lit_mask]:
  "(0x3::u64) = mask 2" "(0xf::u64) = mask 4" "(0x3f::u64) = mask 6"
  "(0xff::u64) = mask 8" "(0x3ff::u64) = mask 10" "(0xffff::u64) = mask 16"
  "(0xffffff::u64) = mask 24" "(0xffffffff::u64) = mask 32"
  by (simp_all add: mask_numeral)

text \<open>Integral conversions between the widths, as \<^verbatim>\<open>uint32_t(...)\<close> and its kin do them.\<close>

lemma ucast_down_take [bf_simps]:
  "(ucast (take_bit n (x::u64)) :: 'a::len word) = take_bit n (ucast x)"
  by (rule bit_eqI) (auto simp: bit_simps)

lemma ucast_or [bf_simps]:
  "(ucast ((x::'a::len word) OR y) :: 'b::len word) = ucast x OR ucast y"
  by (rule bit_eqI) (auto simp: bit_simps)

lemma ucast_up_down [bf_simps]:
  "LENGTH('a) \<le> 64 \<Longrightarrow> (ucast (ucast (v :: 'a::len word) :: u64) :: 'a word) = v"
  by (rule bit_eqI) (auto simp: bit_simps dest: bit_imp_le_length)

lemma ucast_bf_read_ucast [bf_simps]:
  assumes "w \<le> LENGTH('a::len)"
  shows "(ucast (ucast (bf_read k (mask w) raw) :: 'a word) :: u64) = bf_read k (mask w) raw"
  by (rule bit_eqI) (use assms in \<open>auto simp: bf_bits bit_simps\<close>)

lemma take_bit_full [bf_simps]: "LENGTH('a::len) \<le> n \<Longrightarrow> take_bit n (v :: 'a word) = v"
  by (rule take_bit_word_eq_self)

lemma and_all_ones [bf_simps]: "(v::u64) AND 0xffffffffffffffff = v"
proof -
  have "(0xffffffffffffffff::u64) = mask 64" by (simp add: mask_numeral)
  then show ?thesis by (simp only: take_bit_eq_mask [symmetric]) (simp add: take_bit_full)
qed

lemma bf_read_ucast_u32 [bf_simps]:
  "bf_read 0 (mask 32) (ucast (v::u32)) = ucast v"
  "bf_read 32 (mask 32) (push_bit 32 (ucast (v::u32))) = ucast v"
  "bf_read 0 (mask 32) (push_bit 32 (ucast (v::u32))) = 0"
  "bf_read 32 (mask 32) (ucast (v::u32)) = 0"
  by (rule bit_eqI; auto simp: bf_bits bit_simps dest: bit_imp_le_length)+

lemma bf_read_OR [bf_simps]: "bf_read k m (x OR y) = bf_read k m x OR bf_read k m y"
  by (rule bit_eqI) (auto simp: bf_read_def bit_simps)

text \<open>One-bit flags, whose mask is the literal \<^verbatim>\<open>0x1\<close>.\<close>

lemma bf_flag_simps [bf_simps]:
  "(of_bool b :: u64) AND 1 = of_bool b"
  "bf_read 0 1 (of_bool b) = of_bool b"
  "bf_or 0 1 (of_bool b) 0 = of_bool b"
  by (cases b; simp add: bf_read_def bf_or_def)+

lemma mask_one: "(1::u64) = mask (Suc 0)"
  by simp

lemma bf_flag_read_write [bf_simps]:
  "bf_read 0 1 (bf_or 0 1 (of_bool b) (bf_clear 0 1 raw)) = of_bool b"
  using bf_read_or [of 0 "Suc 0" "of_bool b" "bf_clear 0 1 raw"] bf_read_clear [of 0 "Suc 0" raw]
  by (cases b) simp_all

lemma bf_flag_write_write [bf_simps]:
  "bf_or 0 1 u (bf_clear 0 1 (bf_or 0 1 v (bf_clear 0 1 raw))) = bf_or 0 1 u (bf_clear 0 1 raw)"
  unfolding mask_one by (rule bf_write_write)

lemma bf_flag_write_read [bf_simps]:
  "bf_or 0 1 (of_bool (bf_read 0 1 raw \<noteq> 0)) (bf_clear 0 1 raw) = raw"
proof -
  have "bf_read 0 1 raw = of_bool (bf_read 0 1 raw \<noteq> 0)"
    by (simp add: bf_read_def and_one_eq mod2_eq_if)
  then show ?thesis
    using bf_write_read [of 0 "Suc 0" raw] by simp
qed

subsection \<open>What a field accessor promises\<close>

text \<open>
  A getter and a setter of one field, as the class documentation promises them ("the concrete
  bit-fields are always synchronized with this value"). \<open>trunc\<close> is what the field keeps of a
  value: its low bits.
\<close>

locale field_writer =
  fixes rd :: "'r \<Rightarrow> 'v" and wr :: "'v \<Rightarrow> 'r \<Rightarrow> 'r" and trunc :: "'v \<Rightarrow> 'v"
  assumes rd_wr: "rd (wr v r) = trunc v"
    and wr_wr: "wr u (wr v r) = wr u r"
begin

lemma rd_wr_fits: "trunc v = v \<Longrightarrow> rd (wr v r) = v"
  by (simp add: rd_wr)

lemma wr_idem: "wr v (wr v r) = wr v r"
  by (rule wr_wr)

lemma last_write_wins: "rd (wr u (wr v r)) = trunc u"
  by (simp add: rd_wr)

end

text \<open>A field whose setter changes nothing but the field.\<close>

locale lossless_field = field_writer +
  assumes wr_rd: "wr (rd r) r = r"
begin

lemma wr_trunc: "wr (trunc v) r = wr v r"
proof -
  have "wr (rd (wr v r)) (wr v r) = wr v r" by (rule wr_rd)
  then show ?thesis by (simp add: rd_wr wr_wr)
qed

lemma wr_eq_iff: "wr u r = wr v r \<longleftrightarrow> trunc u = trunc v"
proof
  assume "wr u r = wr v r"
  then have "rd (wr u r) = rd (wr v r)" by simp
  then show "trunc u = trunc v" by (simp add: rd_wr)
next
  assume "trunc u = trunc v"
  then show "wr u r = wr v r" using wr_trunc [of u r] wr_trunc [of v r] by simp
qed

lemma wr_same_iff: "wr v r = r \<longleftrightarrow> rd r = trunc v"
  using wr_eq_iff [of v r "rd r"] wr_trunc [of "rd r" r] rd_wr [of "rd r" r] by (auto simp: wr_rd)

end

text \<open>Two fields of one register that do not see each other's writes.\<close>

locale disjoint_fields =
  one: lossless_field rd1 wr1 trunc1 + two: lossless_field rd2 wr2 trunc2
  for rd1 :: "'r \<Rightarrow> 'v" and wr1 trunc1 and rd2 :: "'r \<Rightarrow> 'u" and wr2 trunc2 +
  assumes wr_commute: "wr1 u (wr2 v r) = wr2 v (wr1 u r)"
begin

lemma rd1_wr2: "rd1 (wr2 v r) = rd1 r"
proof -
  have "rd1 (wr2 v r) = rd1 (wr2 v (wr1 (rd1 r) r))" by (simp add: one.wr_rd)
  also have "\<dots> = rd1 (wr1 (rd1 r) (wr2 v r))" by (simp add: wr_commute)
  also have "\<dots> = trunc1 (rd1 r)" by (simp add: one.rd_wr)
  also have "\<dots> = rd1 r" using one.rd_wr [of "rd1 r" r] by (simp add: one.wr_rd)
  finally show ?thesis .
qed

lemma rd2_wr1: "rd2 (wr1 u r) = rd2 r"
proof -
  have "rd2 (wr1 u r) = rd2 (wr2 (rd2 r) (wr1 u r))"
    using wr_commute [of u "rd2 r" r] by (simp add: two.wr_rd)
  also have "\<dots> = trunc2 (rd2 r)" by (simp add: two.rd_wr)
  also have "\<dots> = rd2 r" using two.rd_wr [of "rd2 r" r] by (simp add: two.wr_rd)
  finally show ?thesis .
qed

lemma both_writes: "rd1 (wr2 v (wr1 u r)) = trunc1 u" "rd2 (wr1 u (wr2 v r)) = trunc2 v"
  by (simp_all add: rd1_wr2 rd2_wr1 one.rd_wr two.rd_wr)

end

text \<open>
  A setter that only ever sets bits: it ORs the new value onto the old one. It agrees with a
  real setter exactly where the old value has no bit outside the new one.
\<close>

locale sticky_field =
  fixes rd :: "'r \<Rightarrow> 'a::len word" and wr :: "'a word \<Rightarrow> 'r \<Rightarrow> 'r" and width :: nat
  assumes rd_or: "rd (wr v r) = rd r OR take_bit width v"
    and wr_or: "wr u (wr v r) = wr (u OR v) r"
begin

lemma keeps_old_bits: "rd (wr v r) AND rd r = rd r"
  by (rule bit_eqI) (auto simp: rd_or bit_simps)

lemma exact_iff: "rd (wr v r) = take_bit width v \<longleftrightarrow> rd r AND NOT (take_bit width v) = 0"
proof -
  have "rd r OR x = x \<longleftrightarrow> rd r AND NOT x = 0" for x
    by (auto simp: bit_eq_iff bit_simps dest: bit_imp_le_length)
  then show ?thesis by (simp add: rd_or)
qed

lemma exact_on_zero: "rd r = 0 \<Longrightarrow> rd (wr v r) = take_bit width v"
  by (simp add: rd_or)

lemma wr_idem: "wr v (wr v r) = wr v r"
  by (simp add: wr_or)

end

subsection \<open>Word arithmetic read as natural numbers\<close>

lemma unat_u64_bound: "unat (x::u64) < 0x10000000000000000"
  by (rule order_less_le_trans [OF unsigned_less]) simp

lemma unat_u64_add: "unat a + unat b < 0x10000000000000000 \<Longrightarrow> unat ((a::u64) + b) = unat a + unat b"
  by (simp add: unat_word_ariths)

lemma unat_u64_Suc: "unat a < 0xffffffffffffffff \<Longrightarrow> unat ((a::u64) + 1) = Suc (unat a)"
  by (simp add: unat_u64_add)

lemma unat_u64_pred: "0 < (a::u64) \<Longrightarrow> unat (a - 1) = unat a - 1"
  by (simp add: unat_sub word_le_nat_alt word_less_nat_alt)

subsection \<open>Sequencing\<close>

text \<open>
  A member function that calls out and may throw takes the state and returns either the
  failure or a value, with the state it leaves behind.
\<close>

type_synonym ('s, 'f, 'a) comp = "'s \<Rightarrow> ('f + 'a) \<times> 's"

definition ret :: "'a \<Rightarrow> ('s, 'f, 'a) comp" where
  "ret x s = (Inr x, s)"

definition fail :: "'f \<Rightarrow> ('s, 'f, 'a) comp" where
  "fail f s = (Inl f, s)"

definition andthen :: "('s, 'f, 'a) comp \<Rightarrow> ('a \<Rightarrow> ('s, 'f, 'b) comp) \<Rightarrow> ('s, 'f, 'b) comp" where
  "andthen c k s = (case c s of (Inl f, s') \<Rightarrow> (Inl f, s') | (Inr x, s') \<Rightarrow> k x s')"

lemma ret_apply [simp]: "ret x s = (Inr x, s)"
  by (simp add: ret_def)

lemma fail_apply [simp]: "fail f s = (Inl f, s)"
  by (simp add: fail_def)

lemma andthen_Inr [simp]: "c s = (Inr x, s') \<Longrightarrow> andthen c k s = k x s'"
  by (simp add: andthen_def)

lemma andthen_Inl [simp]: "c s = (Inl f, s') \<Longrightarrow> andthen c k s = (Inl f, s')"
  by (simp add: andthen_def)

lemma andthen_ret [simp]: "andthen (ret x) k = k x"
  by (rule ext) simp

lemma andthen_assoc: "andthen (andthen c k) l = andthen c (\<lambda>x. andthen (k x) l)"
  by (rule ext) (simp add: andthen_def split: prod.splits sum.splits)

end
