(* ===== verification/Exceptions.thy ===== *)
theory Exceptions
  imports Nhtl_Prelude
begin

text \<open>
  The exceptions of \<^verbatim>\<open>include/nhtl-extoll/exception.h\<close>, \<^verbatim>\<open>src/nhtl-extoll/exception.cpp\<close>
  and \<^verbatim>\<open>throw_on_error.h\<close>: the values thrown, their class hierarchy (an order: a handler
  for a class catches every class below it), their messages, and the two ways a C++ program
  fails without an exception a caller could catch.
\<close>

subsection \<open>Exception values\<close>

datatype exn =
    runtime_error string
  | invalid_argument string
  | out_of_range string
  | length_error string
  | ConnectionFailed string
  | FailedToRegisterRegion
  | FailedToRead u16 u64
  | FailedToWrite u16 u64
  | NodeIsNoFpga u16 u32

text \<open>
  \<open>Terminate\<close> is \<^verbatim>\<open>std::terminate\<close> or \<^verbatim>\<open>abort\<close>: an exception that leaves a destructor or
  a thread function. \<open>Undefined\<close> marks a step the C++ standard gives no meaning.
\<close>

datatype failure = Throw exn | Terminate | Undefined

fun what :: "exn \<Rightarrow> string" where
  "what (runtime_error m) = m"
| "what (invalid_argument m) = m"
| "what (out_of_range m) = m"
| "what (length_error m) = m"
| "what (ConnectionFailed m) = m"
| "what FailedToRegisterRegion = ''Failed to register region''"
| "what (FailedToRead n a) = ''Failed to read!''"
| "what (FailedToWrite n a) = ''Failed to write!''"
| "what (NodeIsNoFpga n d) = ''Connection to Fpga failed, because node is not an Fpga!''"

subsection \<open>The class hierarchy\<close>

datatype exn_class =
    Std_exception
  | Std_logic_error
  | Std_invalid_argument
  | Std_out_of_range
  | Std_length_error
  | Std_runtime_error
  | Class_RmaError
  | Class_ConnectionFailed
  | Class_FailedToRegisterRegion
  | Class_RraError
  | Class_FailedToRead
  | Class_FailedToWrite
  | Class_NodeIsNoFpga

fun base_class :: "exn_class \<Rightarrow> exn_class option" where
  "base_class Std_exception = None"
| "base_class Std_logic_error = Some Std_exception"
| "base_class Std_invalid_argument = Some Std_logic_error"
| "base_class Std_out_of_range = Some Std_logic_error"
| "base_class Std_length_error = Some Std_logic_error"
| "base_class Std_runtime_error = Some Std_exception"
| "base_class Class_RmaError = Some Std_runtime_error"
| "base_class Class_ConnectionFailed = Some Class_RmaError"
| "base_class Class_FailedToRegisterRegion = Some Class_RmaError"
| "base_class Class_RraError = Some Class_RmaError"
| "base_class Class_FailedToRead = Some Class_RraError"
| "base_class Class_FailedToWrite = Some Class_RraError"
| "base_class Class_NodeIsNoFpga = Some Class_ConnectionFailed"

fun class_depth :: "exn_class \<Rightarrow> nat" where
  "class_depth Std_exception = 0"
| "class_depth Std_logic_error = 1"
| "class_depth Std_invalid_argument = 2"
| "class_depth Std_out_of_range = 2"
| "class_depth Std_length_error = 2"
| "class_depth Std_runtime_error = 1"
| "class_depth Class_RmaError = 2"
| "class_depth Class_ConnectionFailed = 3"
| "class_depth Class_FailedToRegisterRegion = 3"
| "class_depth Class_RraError = 3"
| "class_depth Class_FailedToRead = 4"
| "class_depth Class_FailedToWrite = 4"
| "class_depth Class_NodeIsNoFpga = 4"

lemma base_class_depth: "base_class c = Some b \<Longrightarrow> class_depth b < class_depth c"
  by (cases c) auto

function derives_from :: "exn_class \<Rightarrow> exn_class \<Rightarrow> bool" where
  "derives_from c d =
     (c = d \<or> (case base_class c of None \<Rightarrow> False | Some b \<Rightarrow> derives_from b d))"
  by pat_completeness auto
termination
  by (relation "measure (\<lambda>(c, d). class_depth c)") (auto dest: base_class_depth)

declare derives_from.simps [simp del]

lemma derives_from_refl: "derives_from c c"
  by (subst derives_from.simps) simp

lemma derives_from_depth: "derives_from c d \<Longrightarrow> c \<noteq> d \<Longrightarrow> class_depth d < class_depth c"
proof (induction c d rule: derives_from.induct)
  case (1 c d)
  then obtain b where b: "base_class c = Some b" "derives_from b d"
    by (subst (asm) (2) derives_from.simps) (auto split: option.splits)
  with "1.IH" [of b] base_class_depth [OF b(1)] show ?case by (cases "b = d") auto
qed

lemma derives_from_trans: "derives_from c d \<Longrightarrow> derives_from d e \<Longrightarrow> derives_from c e"
proof (induction c d rule: derives_from.induct)
  case (1 c d)
  show ?case
  proof (cases "c = d")
    case True
    with "1.prems" show ?thesis by simp
  next
    case False
    with "1.prems"(1) obtain b where "base_class c = Some b" "derives_from b d"
      by (subst (asm) derives_from.simps) (auto split: option.splits)
    with "1.IH" [of b] "1.prems"(2) show ?thesis by (subst derives_from.simps) simp
  qed
qed

text \<open>Derivation is an order, with a derived class below its base.\<close>

instantiation exn_class :: order
begin

definition less_eq_exn_class :: "exn_class \<Rightarrow> exn_class \<Rightarrow> bool" where
  "less_eq_exn_class c d = derives_from c d"

definition less_exn_class :: "exn_class \<Rightarrow> exn_class \<Rightarrow> bool" where
  "less_exn_class c d \<longleftrightarrow> derives_from c d \<and> \<not> derives_from d c"

instance
proof
  fix c d e :: exn_class
  show "(c < d) = (c \<le> d \<and> \<not> d \<le> c)"
    by (simp add: less_eq_exn_class_def less_exn_class_def)
  show "c \<le> c"
    by (simp add: less_eq_exn_class_def derives_from_refl)
  show "c \<le> d \<Longrightarrow> d \<le> e \<Longrightarrow> c \<le> e"
    unfolding less_eq_exn_class_def by (rule derives_from_trans)
  show "c \<le> d \<Longrightarrow> d \<le> c \<Longrightarrow> c = d"
    unfolding less_eq_exn_class_def using derives_from_depth [of c d] derives_from_depth [of d c]
    by fastforce
qed

end

fun class_of :: "exn \<Rightarrow> exn_class" where
  "class_of (runtime_error m) = Std_runtime_error"
| "class_of (invalid_argument m) = Std_invalid_argument"
| "class_of (out_of_range m) = Std_out_of_range"
| "class_of (length_error m) = Std_length_error"
| "class_of (ConnectionFailed m) = Class_ConnectionFailed"
| "class_of FailedToRegisterRegion = Class_FailedToRegisterRegion"
| "class_of (FailedToRead n a) = Class_FailedToRead"
| "class_of (FailedToWrite n a) = Class_FailedToWrite"
| "class_of (NodeIsNoFpga n d) = Class_NodeIsNoFpga"

text \<open>\<^verbatim>\<open>catch (H const& e)\<close> handles \<open>e\<close>.\<close>

definition catches :: "exn_class \<Rightarrow> exn \<Rightarrow> bool" where
  "catches h e \<longleftrightarrow> class_of e \<le> h"

lemmas catches_simps = catches_def less_eq_exn_class_def derives_from.simps

lemma catches_runtime_error:
  "catches Std_runtime_error e \<longleftrightarrow> (case e of invalid_argument m \<Rightarrow> False
    | out_of_range m \<Rightarrow> False | length_error m \<Rightarrow> False | _ \<Rightarrow> True)"
  by (cases e) (simp_all add: catches_simps)

lemma catches_RraError:
  "catches Class_RraError e \<longleftrightarrow> (case e of FailedToRead n a \<Rightarrow> True | FailedToWrite n a \<Rightarrow> True | _ \<Rightarrow> False)"
  by (cases e) (simp_all add: catches_simps)

subsection \<open>The status of a library call\<close>

text \<open>
  \<^verbatim>\<open>RMA2_ERROR\<close> of librma2: the three values the source compares with, and all the others.
\<close>

datatype rma2_error = RMA2_SUCCESS | RMA2_NO_NOTI | RMA2_ERR_INV_PORT | RMA2_ERR_OTHER nat

definition throw_on_error :: "('args \<Rightarrow> exn) \<Rightarrow> rma2_error \<Rightarrow> 'args \<Rightarrow> ('s, failure, unit) comp" where
  "throw_on_error E status args =
     (if status \<noteq> RMA2_SUCCESS then fail (Throw (E args)) else ret ())"

lemma throw_on_error_success [simp]: "throw_on_error E RMA2_SUCCESS args = ret ()"
  by (simp add: throw_on_error_def)

lemma throw_on_error_failure [simp]:
  "status \<noteq> RMA2_SUCCESS \<Longrightarrow> throw_on_error E status args = fail (Throw (E args))"
  by (simp add: throw_on_error_def)

end
