(* ===== verification/Environment.thy ===== *)
theory Environment
  imports Exceptions
begin

text \<open>
  The world outside the library: librma2, the kernel and the network card with the FPGA behind
  it. None of it is under \<^verbatim>\<open>src/\<close>, so it is a parameter: a function of type \<open>'e ext\<close> that
  answers a call, may change its own hidden state \<open>'e\<close>, and may write the mapped physical
  buffer (the card does so by DMA). The model records every call in order, so a theorem can say
  exactly what the code asked of the outside.
\<close>

subsection \<open>The calls the source makes\<close>

datatype conn_flag = RMA2_CONN_PHYSICAL | RMA2_CONN_RRA

datatype noti_spec = RMA2_NO_NOTIFICATION | RMA2_COMPLETER_NOTIFICATION

text \<open>
  Ports, handles, regions, notifications and addresses are 64-bit words; a node id and a vpid
  are 16-bit words, as \<^verbatim>\<open>get_node_ids.h\<close> documents for \<^verbatim>\<open>RMA2_Nodeid\<close>. The constant
  \<^verbatim>\<open>RMA2_CMD_DEFAULT\<close>, the same in every call, is left out.
  \<open>close_pmap\<close>, which would give the file descriptor of \<open>open_pmap\<close> back, is the only call here that
  the source never makes.
\<close>

datatype ext_call =
    rma2_open
  | rma2_close u64
  | rma2_get_vpid u64
  | rma2_get_nodeid u64
  | rma2_connect u64 u16 u16 "conn_flag list"
  | rma2_disconnect u64 u64
  | rma2_noti_probe u64
  | rma2_noti_get_block u64
  | rma2_noti_free u64 u64
  | rma2_noti_get_notification_type u64
  | rma2_noti_get_remote_vpid u64
  | rma2_noti_get_remote_nodeid u64
  | rma2_noti_get_notiput_class u64
  | rma2_noti_get_notiput_payload u64
  | rma2_register u64 u64 u64
  | rma2_unregister u64 u64
  | rma2_get_nla u64 u64
  | rma2_post_get_qw_direct u64 u64 u64 u64 u64 noti_spec
  | rma2_post_put_qw_direct u64 u64 u64 u64 u64 noti_spec
  | rma2_post_immediate_put u64 u64 u64 u64 u64 noti_spec
  | rma2_post_notification u64 u64 u8 u64 noti_spec
  | sysconf_pagesize
  | open_pmap
  | ioctl_pmap_set_type int u64
  | ioctl_pmap_set_size int u64
  | ioctl_pmap_get_paddr int
  | mmap_pmap int u64
  | munmap_pmap u64 u64
  | close_pmap int
  | aligned_alloc u64 u64
  | free_mem u64
  | sleep_us nat

text \<open>
  An answer: the status of a librma2 call, the signed return value of a system call, and the
  word the call returns or stores through its out-parameter.
\<close>

record ext_reply =
  r_status :: rma2_error
  r_ret :: int
  r_out :: u64

type_synonym 'e ext = "ext_call \<Rightarrow> 'e \<Rightarrow> (u64 \<Rightarrow> u64) \<Rightarrow> ext_reply \<times> 'e \<times> (u64 \<Rightarrow> u64)"

text \<open>\<open>w_mem\<close> is the mapped physical buffer by quad-word index.\<close>

record 'e world =
  w_env :: 'e
  w_mem :: "u64 \<Rightarrow> u64"
  w_log :: "ext_call list"

definition ask :: "'e ext \<Rightarrow> ext_call \<Rightarrow> 'e world \<Rightarrow> ext_reply \<times> 'e world" where
  "ask X c w =
     (let (r, e, m) = X c (w_env w) (w_mem w)
      in (r, w\<lparr>w_env := e, w_mem := m, w_log := w_log w @ [c]\<rparr>))"

definition call :: "'e ext \<Rightarrow> ext_call \<Rightarrow> ('e world, failure, ext_reply) comp" where
  "call X c w = (case ask X c w of (r, w') \<Rightarrow> (Inr r, w'))"

definition answer :: "'e ext \<Rightarrow> ext_call \<Rightarrow> 'e world \<Rightarrow> ext_reply" where
  "answer X c w = fst (ask X c w)"

definition after :: "'e ext \<Rightarrow> ext_call \<Rightarrow> 'e world \<Rightarrow> 'e world" where
  "after X c w = snd (ask X c w)"

lemma ask_split: "ask X c w = (answer X c w, after X c w)"
  by (simp add: answer_def after_def)

lemma call_apply [simp]: "call X c w = (Inr (answer X c w), after X c w)"
  by (simp add: call_def ask_split)

lemma andthen_call [simp]: "andthen (call X c) k w = k (answer X c w) (after X c w)"
  by (simp add: andthen_def)

lemma w_log_after [simp]: "w_log (after X c w) = w_log w @ [c]"
  by (simp add: after_def ask_def split: prod.splits)

subsection \<open>What a computation asked\<close>

text \<open>
  A computation only ever appends to the log; \<open>asked w w'\<close> is what was asked between the two.
\<close>

definition extends :: "'e world \<Rightarrow> 'e world \<Rightarrow> bool" where
  "extends w w' \<longleftrightarrow> (\<exists>cs. w_log w' = w_log w @ cs)"

definition asked :: "'e world \<Rightarrow> 'e world \<Rightarrow> ext_call list" where
  "asked w w' = drop (length (w_log w)) (w_log w')"

lemma extends_refl [simp, intro]: "extends w w"
  by (simp add: extends_def)

lemma extends_after [simp, intro]: "extends w (after X c w)"
  by (simp add: extends_def)

lemma extends_trans [trans]: "extends u v \<Longrightarrow> extends v w \<Longrightarrow> extends u w"
  by (auto simp: extends_def)

lemma asked_refl [simp]: "asked w w = []"
  by (simp add: asked_def)

lemma asked_after [simp]: "asked w (after X c w) = [c]"
  by (simp add: asked_def)

lemma asked_trans: "extends u v \<Longrightarrow> extends v w \<Longrightarrow> asked u w = asked u v @ asked v w"
  by (auto simp: extends_def asked_def)

lemma w_log_asked: "extends w w' \<Longrightarrow> w_log w' = w_log w @ asked w w'"
  by (auto simp: extends_def asked_def)

subsection \<open>What a computation keeps\<close>

text \<open>A computation that keeps what \<open>f\<close> observes of the outside.\<close>

definition keeps :: "('e \<Rightarrow> 'b) \<Rightarrow> ('e world, failure, 'a) comp \<Rightarrow> bool" where
  "keeps f c \<longleftrightarrow> (\<forall>w. f (w_env (snd (c w))) = f (w_env w))"

lemma keepsD: "keeps f c \<Longrightarrow> c w = (r, w') \<Longrightarrow> f (w_env w') = f (w_env w)"
  unfolding keeps_def by (metis snd_conv)

lemma keeps_ret: "keeps f (ret x)" and keeps_fail: "keeps f (fail e)"
  by (simp_all add: keeps_def ret_def fail_def)

lemma keeps_call: "(\<And>w. f (w_env (after X c w)) = f (w_env w)) \<Longrightarrow> keeps f (call X c)"
  by (simp add: keeps_def)

lemma keeps_andthen: "keeps f c \<Longrightarrow> (\<And>x. keeps f (k x)) \<Longrightarrow> keeps f (andthen c k)"
  unfolding keeps_def andthen_def by (auto split: prod.splits sum.splits) (metis snd_conv)+

lemma keeps_throw_on_error: "keeps f (throw_on_error E status args)"
  by (simp add: throw_on_error_def keeps_ret keeps_fail)

lemma keeps_if: "keeps f c \<Longrightarrow> keeps f d \<Longrightarrow> keeps f (if b then c else d)"
  by simp

lemmas keeps_intros = keeps_andthen keeps_throw_on_error keeps_if keeps_ret keeps_fail keeps_call

subsection \<open>A concrete environment for the witnesses\<close>

text \<open>An environment without hidden state that gives every call the same answer.\<close>

definition always :: "rma2_error \<Rightarrow> u64 \<Rightarrow> unit ext" where
  "always st x = (\<lambda>c e m. (\<lparr>r_status = st, r_ret = 4096, r_out = x\<rparr>, e, m))"

definition world0 :: "unit world" where
  "world0 = \<lparr>w_env = (), w_mem = (\<lambda>_. 0), w_log = []\<rparr>"

lemma always_simps [simp]:
  "answer (always st x) c w = \<lparr>r_status = st, r_ret = 4096, r_out = x\<rparr>"
  "after (always st x) c w = w\<lparr>w_log := w_log w @ [c]\<rparr>"
  by (simp_all add: answer_def after_def ask_def always_def)

end
