(* ===== verification/Notification_Poller.thy ===== *)
theory Notification_Poller
  imports Environment
begin

text \<open>
  \<^verbatim>\<open>src/nhtl-extoll/notification_poller.cpp\<close>: the counters, the loop of the polling thread and
  the two blocking consumers, with the condition variable made explicit. The thread's loop is
  cut where the mutex is taken: \<open>poll_fetch\<close> runs outside it, \<open>dispatch\<close> inside. The
  interleaving of the two threads is the subject of \<^verbatim>\<open>Poller_Threads\<close>. Construction beside the
  running thread is \<^verbatim>\<open>Poller_Start\<close>, its CPU affinity \<^verbatim>\<open>Poller_Affinity\<close>.
\<close>

unbundle bit_operations_syntax

subsection \<open>State\<close>

record NotificationPoller =
  np_port :: u64
  m_packets :: u64
  m_notifications :: u64
  m_running :: bool

definition NotificationPoller_new :: "u64 \<Rightarrow> NotificationPoller" where
  "NotificationPoller_new p =
     \<lparr>np_port = p, m_packets = 0, m_notifications = 0, m_running = True\<rparr>"

definition NotificationPoller_delete :: "NotificationPoller \<Rightarrow> NotificationPoller" where
  "NotificationPoller_delete p = p\<lparr>m_running := False\<rparr>"

subsection \<open>The polling thread\<close>

text \<open>The periods in microseconds: \<^verbatim>\<open>1us\<close> and \<^verbatim>\<open>10ms\<close>.\<close>

definition max_wait_period :: nat where
  "max_wait_period = 10000"

text \<open>
  One turn of the loop up to the mutex: the new waiting period, and the class and payload of
  the notification if there was one.
\<close>

definition poll_fetch ::
  "'e ext \<Rightarrow> u64 \<Rightarrow> nat \<Rightarrow> ('e world, failure, nat \<times> (u8 \<times> u64) option) comp" where
  "poll_fetch X port wait_period =
     andthen (call X (rma2_noti_probe port)) (\<lambda>probe.
     if r_status probe = RMA2_NO_NOTI then
       andthen (call X (sleep_us wait_period)) (\<lambda>_.
       ret (min (wait_period * 2) max_wait_period, None))
     else if r_status probe = RMA2_ERR_INV_PORT then
       fail (Throw (runtime_error ''Invalid port in notification poller''))
     else
       andthen (call X (rma2_noti_get_notiput_class (r_out probe))) (\<lambda>cls.
       andthen (call X (rma2_noti_get_notiput_payload (r_out probe))) (\<lambda>payload.
       andthen (call X (rma2_noti_free port (r_out probe))) (\<lambda>_.
       ret (1, Some (ucast (r_out cls), r_out payload AND 0xffffffff))))))"

text \<open>The \<^verbatim>\<open>switch\<close> under the lock.\<close>

definition dispatch :: "u8 \<Rightarrow> u64 \<Rightarrow> NotificationPoller \<Rightarrow> failure + NotificationPoller" where
  "dispatch cls payload p =
     (if cls = 0xca then Inr (p\<lparr>m_packets := m_packets p + payload\<rparr>)
      else if cls = 0x0 then Inr (p\<lparr>m_notifications := m_notifications p + 1\<rparr>)
      else Inl (Throw (runtime_error ''Unknown notification class'')))"

definition poll_once ::
  "'e ext \<Rightarrow> nat \<times> NotificationPoller \<Rightarrow> ('e world, failure, nat \<times> NotificationPoller) comp" where
  "poll_once X s =
     andthen (poll_fetch X (np_port (snd s)) (fst s)) (\<lambda>(wait_period, noti).
     case noti of
       None \<Rightarrow> ret (wait_period, snd s)
     | Some (cls, payload) \<Rightarrow>
         (case dispatch cls payload (snd s) of
            Inl f \<Rightarrow> fail f
          | Inr p \<Rightarrow> ret (wait_period, p)))"

text \<open>
  \<^verbatim>\<open>while (m_running)\<close>: \<open>n\<close> is how often the thread finds the flag set before the destructor
  clears it. An exception that leaves the thread function ends the process.
\<close>

fun poll_loop ::
  "'e ext \<Rightarrow> nat \<Rightarrow> nat \<times> NotificationPoller \<Rightarrow> ('e world, failure, nat \<times> NotificationPoller) comp" where
  "poll_loop X 0 s = ret s"
| "poll_loop X (Suc n) s = andthen (poll_once X s) (poll_loop X n)"

definition poll_notifications ::
  "'e ext \<Rightarrow> nat \<Rightarrow> NotificationPoller \<Rightarrow> ('e world, failure, NotificationPoller) comp" where
  "poll_notifications X n p w =
     (case poll_loop X n (1, p) w of
        (Inl _, w') \<Rightarrow> (Inl Terminate, w')
      | (Inr (_, p'), w') \<Rightarrow> (Inr p', w'))"

subsection \<open>The consumers\<close>

text \<open>
  A waiting consumer releases the lock; whenever it has the lock again it tests its condition.
  \<open>batches\<close> lists what the polling thread dispatched between one test and the next (an empty
  batch is a spurious wake-up); the end of the list is the time-out. Notifications that arrive
  after the wait are left for later.
\<close>

type_synonym batch = "(u8 \<times> u64) list"

fun dispatch_all :: "batch \<Rightarrow> NotificationPoller \<Rightarrow> failure + NotificationPoller" where
  "dispatch_all [] p = Inr p"
| "dispatch_all ((cls, payload) # b) p =
     (case dispatch cls payload p of Inl _ \<Rightarrow> Inl Terminate | Inr p' \<Rightarrow> dispatch_all b p')"

fun wait_for ::
  "(NotificationPoller \<Rightarrow> bool) \<Rightarrow> batch list \<Rightarrow> NotificationPoller
   \<Rightarrow> failure + NotificationPoller \<times> batch list" where
  "wait_for P [] p = Inr (p, [])"
| "wait_for P (b # bs) p =
     (if P p then Inr (p, b # bs)
      else case dispatch_all b p of Inl f \<Rightarrow> Inl f | Inr p' \<Rightarrow> wait_for P bs p')"

definition consume_response ::
  "batch list \<Rightarrow> NotificationPoller \<Rightarrow> failure + bool \<times> NotificationPoller \<times> batch list" where
  "consume_response bs p =
     (case wait_for (\<lambda>p. m_notifications p > 0) bs p of
        Inl f \<Rightarrow> Inl f
      | Inr (p', rest) \<Rightarrow>
          if m_notifications p' > 0
          then Inr (True, p'\<lparr>m_notifications := m_notifications p' - 1\<rparr>, rest)
          else Inr (False, p', rest))"

definition consume_packets ::
  "batch list \<Rightarrow> NotificationPoller \<Rightarrow> failure + u64 \<times> NotificationPoller \<times> batch list" where
  "consume_packets bs p =
     (case wait_for (\<lambda>p. m_packets p > 0) bs p of
        Inl f \<Rightarrow> Inl f
      | Inr (p', rest) \<Rightarrow> Inr (m_packets p', p'\<lparr>m_packets := 0\<rparr>, rest))"

subsection \<open>What the notifications carry\<close>

fun packet_sum :: "batch \<Rightarrow> u64" where
  "packet_sum [] = 0"
| "packet_sum ((cls, payload) # b) = (if cls = 0xca then payload else 0) + packet_sum b"

fun response_sum :: "batch \<Rightarrow> u64" where
  "response_sum [] = 0"
| "response_sum ((cls, payload) # b) = (if cls = 0x0 then 1 else 0) + response_sum b"

lemma packet_sum_append [simp]: "packet_sum (a @ b) = packet_sum a + packet_sum b"
  by (induction a rule: packet_sum.induct) (simp_all add: add.assoc)

lemma response_sum_append [simp]: "response_sum (a @ b) = response_sum a + response_sum b"
  by (induction a rule: response_sum.induct) (simp_all add: add.assoc)

lemma dispatch_Inr:
  "dispatch cls payload p = Inr p' \<Longrightarrow>
   p' = p\<lparr>m_packets := m_packets p + packet_sum [(cls, payload)],
         m_notifications := m_notifications p + response_sum [(cls, payload)]\<rparr>"
  by (auto simp: dispatch_def split: if_splits)

lemma dispatch_all_Inr:
  "dispatch_all b p = Inr p' \<Longrightarrow>
   p' = p\<lparr>m_packets := m_packets p + packet_sum b, m_notifications := m_notifications p + response_sum b\<rparr>"
proof (induction b p rule: dispatch_all.induct)
  case (1 p)
  then show ?case by simp
next
  case (2 cls payload b p)
  then obtain q where q: "dispatch cls payload p = Inr q" "dispatch_all b q = Inr p'"
    by (auto split: sum.splits)
  from "2.IH" [OF q] dispatch_Inr [OF q(1)] show ?case by (simp add: add.assoc)
qed

lemma dispatch_all_fails_iff:
  "(\<exists>f. dispatch_all b p = Inl f) \<longleftrightarrow> (\<exists>(cls, payload) \<in> set b. cls \<noteq> 0xca \<and> cls \<noteq> 0x0)"
  by (induction b p rule: dispatch_all.induct) (auto simp: dispatch_def)

text \<open>
  A wait dispatches a prefix of the batches, stops as soon as its condition holds, and consumes
  all of them when it never does.
\<close>

lemma wait_for_Inr:
  assumes "wait_for P bs p = Inr (p', rest)"
  shows "\<exists>used. bs = used @ rest \<and> dispatch_all (concat used) p = Inr p'
    \<and> (P p \<longrightarrow> used = []) \<and> (P p' \<or> rest = [])"
  using assms
proof (induction P bs p rule: wait_for.induct)
  case (1 P p)
  then show ?case by simp
next
  case (2 P b bs p)
  show ?case
  proof (cases "P p")
    case True
    with "2.prems" show ?thesis by simp
  next
    case False
    with "2.prems" obtain q where q: "dispatch_all b p = Inr q" "wait_for P bs q = Inr (p', rest)"
      by (auto split: sum.splits)
    from "2.IH" [OF False q] obtain used where
      used: "bs = used @ rest" "dispatch_all (concat used) q = Inr p'" "P p' \<or> rest = []"
      by blast
    have app: "dispatch_all (x @ y) r = (case dispatch_all x r of Inl f \<Rightarrow> Inl f | Inr s \<Rightarrow> dispatch_all y s)"
      for x y r
      by (induction x r rule: dispatch_all.induct) (auto split: sum.splits)
    from used q(1) False show ?thesis by (intro exI [of _ "b # used"]) (simp add: app)
  qed
qed

lemma wait_for_failure: "wait_for P bs p = Inl f \<Longrightarrow> f = Terminate"
proof (induction P bs p rule: wait_for.induct)
  case (2 P b bs p)
  have "dispatch_all b p = Inl f \<Longrightarrow> f = Terminate"
    by (induction b p rule: dispatch_all.induct) (auto split: sum.splits)
  with 2 show ?case by (auto split: if_splits sum.splits)
qed simp

lemma consume_packets_uses:
  assumes "consume_packets bs p = Inr (n, p', rest)"
  shows "\<exists>used. bs = used @ rest \<and> n = m_packets p + packet_sum (concat used)
    \<and> p' = p\<lparr>m_packets := 0, m_notifications := m_notifications p + response_sum (concat used)\<rparr>
    \<and> (m_packets p > 0 \<longrightarrow> used = []) \<and> (n = 0 \<longrightarrow> rest = [])"
proof -
  from assms obtain q where q: "wait_for (\<lambda>p. m_packets p > 0) bs p = Inr (q, rest)"
    and n: "n = m_packets q" and p': "p' = q\<lparr>m_packets := 0\<rparr>"
    by (auto simp: consume_packets_def split: sum.splits)
  from wait_for_Inr [OF q] obtain used where used: "bs = used @ rest"
    "dispatch_all (concat used) p = Inr q" "m_packets p > 0 \<longrightarrow> used = []"
    "m_packets q > 0 \<or> rest = []" by blast
  with n p' dispatch_all_Inr [OF used(2)] show ?thesis
    by (intro exI [of _ used]) (auto simp: word_gt_0)
qed

subsection \<open>The interface the ring buffers use\<close>

text \<open>
  A source of packet counts: what \<open>consume\<close> returns, what it leaves pending and what is still to
  arrive add up to what was there before, and nothing is left pending.
\<close>

locale packet_source =
  fixes consume :: "'b \<Rightarrow> 'p \<Rightarrow> failure + u64 \<times> 'p \<times> 'b"
    and pending :: "'p \<Rightarrow> u64"
    and inflow :: "'b \<Rightarrow> u64"
  assumes conserve: "consume b p = Inr (n, p', b') \<Longrightarrow> n + inflow b' = pending p + inflow b"
    and drained: "consume b p = Inr (n, p', b') \<Longrightarrow> pending p' = 0"
    and only_terminates: "consume b p = Inl f \<Longrightarrow> f = Terminate"
begin

lemma two_consumes:
  assumes "consume b p = Inr (n, p', b')" and "consume b' p' = Inr (n', p'', b'')"
  shows "n + n' + inflow b'' = pending p + inflow b"
  using conserve [OF assms(1)] conserve [OF assms(2)] drained [OF assms(1)]
  by (simp add: add.assoc)

end

interpretation np: packet_source consume_packets m_packets "\<lambda>bs. packet_sum (concat bs)"
proof unfold_locales
  fix bs p n p' rest
  assume cp: "consume_packets bs p = Inr (n, p', rest)"
  from consume_packets_uses [OF cp]
  show "n + packet_sum (concat rest) = m_packets p + packet_sum (concat bs)" by auto
  from consume_packets_uses [OF cp] show "m_packets p' = 0" by auto
next
  fix bs p f
  assume "consume_packets bs p = Inl f"
  then show "f = Terminate"
    by (auto simp: consume_packets_def dest: wait_for_failure split: sum.splits)
qed

subsection \<open>Properties of the poller\<close>

text \<open>
  \<^verbatim>\<open>consume_packets\<close> returns everything counted so far plus everything dispatched while it
  waited, leaves the counter at zero, does not touch the response counter beyond what was
  dispatched, does not wait when packets are already there, and returns zero only after its
  whole time-out.
\<close>

theorem consume_packets_takes_all:
  assumes "consume_packets bs p = Inr (n, p', rest)"
  shows "\<exists>used. bs = used @ rest \<and> n = m_packets p + packet_sum (concat used)
    \<and> p' = p\<lparr>m_packets := 0, m_notifications := m_notifications p + response_sum (concat used)\<rparr>
    \<and> (m_packets p > 0 \<longrightarrow> used = []) \<and> (n = 0 \<longrightarrow> rest = [])"
  by (rule consume_packets_uses [OF assms])

theorem consume_packets_takes_all_witness:
  "\<exists>used. [[(0, 7)], [(0xca, 5), (0xca, 6)], [(0xca, 1)]] = used @ [[(0xca, 1)]]
    \<and> (11::u64) = 0 + packet_sum (concat used) \<and> 1 = 0 + response_sum (concat used)"
proof -
  let ?p = "NotificationPoller_new 3"
  have "consume_packets [[(0, 7)], [(0xca, 5), (0xca, 6)], [(0xca, 1)]] ?p
      = Inr (11, ?p\<lparr>m_notifications := 1\<rparr>, [[(0xca, 1)]])"
    by (simp add: consume_packets_def dispatch_def NotificationPoller_new_def)
  from consume_packets_takes_all [OF this] show ?thesis
    by (auto simp: NotificationPoller_new_def)
qed

text \<open>
  \<^verbatim>\<open>consume_response\<close> answers true exactly when a response was counted or arrived within the
  time-out, and then takes exactly one; the packet counter only grows by what was dispatched.
\<close>

theorem consume_response_takes_one:
  assumes "consume_response bs p = Inr (b, p', rest)"
  shows "\<exists>used. bs = used @ rest
    \<and> b = (m_notifications p + response_sum (concat used) \<noteq> 0)
    \<and> p' = p\<lparr>m_packets := m_packets p + packet_sum (concat used),
             m_notifications := m_notifications p + response_sum (concat used) - (if b then 1 else 0)\<rparr>
    \<and> (\<not> b \<longrightarrow> rest = [])"
proof -
  from assms obtain q where q: "wait_for (\<lambda>p. m_notifications p > 0) bs p = Inr (q, rest)"
    and b: "b = (m_notifications q > 0)"
    and p': "p' = q\<lparr>m_notifications := m_notifications q - (if b then 1 else 0)\<rparr>"
    by (auto simp: consume_response_def split: sum.splits if_splits)
  from wait_for_Inr [OF q] obtain used where used: "bs = used @ rest"
    "dispatch_all (concat used) p = Inr q" "m_notifications q > 0 \<or> rest = []" by blast
  with b p' dispatch_all_Inr [OF used(2)] show ?thesis
    by (intro exI [of _ used]) (auto simp: word_gt_0)
qed

theorem consume_response_takes_one_witness:
  "\<exists>used. [[(0xca, 9)], [(0, 0)]] = used @ ([]::batch list)
    \<and> 0 + response_sum (concat used) \<noteq> 0 \<and> (9::u64) = 0 + packet_sum (concat used)"
proof -
  let ?p = "NotificationPoller_new 3"
  have "consume_response [[(0xca, 9)], [(0, 0)]] ?p = Inr (True, ?p\<lparr>m_packets := 9\<rparr>, [])"
    by (simp add: consume_response_def dispatch_def NotificationPoller_new_def)
  from consume_response_takes_one [OF this] show ?thesis
    by (auto simp: NotificationPoller_new_def)
qed

text \<open>Waiting periods while nothing arrives: doubling, capped at ten milliseconds.\<close>

lemma backoff_step:
  assumes "wait \<le> m"
  shows "min (min (wait * 2) m * 2 ^ i) m = min (wait * 2 ^ Suc i) (m::nat)"
proof (cases "wait * 2 \<le> m")
  case True
  then show ?thesis by (simp add: mult.assoc)
next
  case False
  then have "m \<le> m * 2 ^ i" "m \<le> (wait * 2) * 2 ^ i"
    by (simp_all add: order_trans [of m "wait * 2"])
  with False show ?thesis by (simp add: mult.assoc)
qed

lemma upt_Suc_conv: "[0..<Suc n] = 0 # map Suc [0..<n]"
  by (simp add: map_Suc_upt upt_conv_Cons del: upt_Suc)

lemma poll_loop_idle:
  assumes idle: "\<And>e m. r_status (fst (X (rma2_noti_probe (np_port p)) e m)) = RMA2_NO_NOTI"
    and "wait \<le> max_wait_period"
  shows "\<exists>wait' w'. poll_loop X n (wait, p) w = (Inr (wait', p), w') \<and> extends w w'
    \<and> asked w w' = concat (map (\<lambda>i. [rma2_noti_probe (np_port p),
         sleep_us (min (wait * 2 ^ i) max_wait_period)]) [0..<n])"
  using assms(2)
proof (induction n arbitrary: wait w)
  case 0
  then show ?case by simp
next
  case (Suc n)
  let ?c = "rma2_noti_probe (np_port p)"
  let ?w1 = "after X ?c w" and ?wait = "min (wait * 2) max_wait_period"
  let ?w2 = "after X (sleep_us wait) ?w1"
  have "r_status (answer X ?c w) = RMA2_NO_NOTI"
    using idle by (simp add: answer_def ask_def split: prod.splits) (metis fst_conv)
  then have once: "poll_once X (wait, p) w = (Inr (?wait, p), ?w2)"
    by (simp add: poll_once_def poll_fetch_def andthen_assoc)
  from Suc.IH [of ?wait ?w2] obtain wait' w' where
    rest: "poll_loop X n (?wait, p) ?w2 = (Inr (wait', p), w')" "extends ?w2 w'"
    and a: "asked ?w2 w' = concat (map (\<lambda>i. [?c, sleep_us (min (?wait * 2 ^ i) max_wait_period)]) [0..<n])"
    by auto
  have ext: "extends w ?w2" by (blast intro: extends_trans)
  have two: "asked w ?w2 = [?c, sleep_us (min (wait * 2 ^ 0) max_wait_period)]"
    using Suc.prems by (simp add: asked_def min_absorb1)
  have "asked w w' = asked w ?w2 @ asked ?w2 w'"
    by (rule asked_trans [OF ext rest(2)])
  then show ?case
    using once rest ext unfolding two a upt_Suc_conv
    by (auto simp: backoff_step [OF Suc.prems] o_def intro: extends_trans)
qed

text \<open>
  C35: while no notification arrives, the polling thread alternates between one probe and one
  sleep, and the sleeps are 1, 2, 4, ... microseconds, capped at ten milliseconds; the counters
  stay as they are.
\<close>

theorem poll_notifications_backoff:
  assumes "\<And>e m. r_status (fst (X (rma2_noti_probe (np_port p)) e m)) = RMA2_NO_NOTI"
  shows "\<exists>w'. poll_notifications X n p w = (Inr p, w')
    \<and> asked w w' = concat (map (\<lambda>i. [rma2_noti_probe (np_port p), sleep_us (min (2 ^ i) 10000)]) [0..<n])"
  using poll_loop_idle [of X p 1 n w] assms
  by (auto simp: poll_notifications_def max_wait_period_def)

theorem poll_notifications_backoff_witness:
  "\<exists>w'. poll_notifications (always RMA2_NO_NOTI 0) 2 (NotificationPoller_new 3) world0
     = (Inr (NotificationPoller_new 3), w')
    \<and> asked world0 w'
      = concat (map (\<lambda>i. [rma2_noti_probe 3, sleep_us (min (2 ^ i) 10000)]) [0..<2])"
  using poll_notifications_backoff [of "always RMA2_NO_NOTI 0" "NotificationPoller_new 3" 2 world0]
  by (simp add: NotificationPoller_new_def always_def)

text \<open>
  One turn of the polling loop that finds a notification reads its class and its payload
  before it frees it, frees it exactly once, resets the waiting period, and adds the low 32 bits
  of the payload (class \<^verbatim>\<open>0xca\<close>) or one response (class \<^verbatim>\<open>0x0\<close>) to the counters; any other
  class throws.
\<close>

theorem poll_once_counts_notification:
  assumes "r_status (answer X (rma2_noti_probe (np_port p)) w) \<notin> {RMA2_NO_NOTI, RMA2_ERR_INV_PORT}"
    and "noti = r_out (answer X (rma2_noti_probe (np_port p)) w)"
    and "w1 = after X (rma2_noti_probe (np_port p)) w"
    and "(cls :: u8) = ucast (r_out (answer X (rma2_noti_get_notiput_class noti) w1))"
    and "w2 = after X (rma2_noti_get_notiput_class noti) w1"
    and "payload = r_out (answer X (rma2_noti_get_notiput_payload noti) w2)"
    and "w3 = after X (rma2_noti_get_notiput_payload noti) w2"
    and "w4 = after X (rma2_noti_free (np_port p) noti) w3"
  shows "poll_once X (wait, p) w =
      (if cls = 0xca then Inr (1, p\<lparr>m_packets := m_packets p + take_bit 32 payload\<rparr>)
       else if cls = 0x0 then Inr (1, p\<lparr>m_notifications := m_notifications p + 1\<rparr>)
       else Inl (Throw (runtime_error ''Unknown notification class'')), w4)
    \<and> asked w w4 = [rma2_noti_probe (np_port p), rma2_noti_get_notiput_class noti,
        rma2_noti_get_notiput_payload noti, rma2_noti_free (np_port p) noti]"
proof -
  have "x AND 0xffffffff = take_bit 32 x" for x :: u64
    by (simp add: lit_mask take_bit_eq_mask)
  with assms show ?thesis
    by (simp add: poll_once_def poll_fetch_def andthen_assoc dispatch_def asked_def)
qed

theorem poll_once_counts_notification_witness:
  "fst (poll_once (always RMA2_SUCCESS 0x1000000ca) (64, NotificationPoller_new 3) world0)
   = Inr (1, (NotificationPoller_new 3)\<lparr>m_packets := 0xca\<rparr>)"
  using poll_once_counts_notification
    [of "always RMA2_SUCCESS 0x1000000ca" "NotificationPoller_new 3" world0, OF _ refl refl refl refl refl refl refl,
      of 64]
  by (simp add: NotificationPoller_new_def)

end
