(* ===== verification/Simulations.thy ===== *)
theory Simulations
  imports Main
begin

text \<open>
  Step relations as interfaces: an invariant that every step keeps, and a simulation, where in
  addition every step is matched by one step or none of an abstract system. The state machines of
  the development (poller threads, link, endpoint) are interpretations; what holds along whole runs
  is proved here once.
\<close>

lemma run_step: "step\<^sup>*\<^sup>* s t \<Longrightarrow> step t u \<Longrightarrow> step\<^sup>*\<^sup>* s u"
  by (rule rtranclp.rtrancl_into_rtrancl)

locale stepped_invariant =
  fixes step :: "'s \<Rightarrow> 's \<Rightarrow> bool" and inv :: "'s \<Rightarrow> bool"
  assumes keeps: "inv s \<Longrightarrow> step s t \<Longrightarrow> inv t"
begin

lemma run_keeps: "step\<^sup>*\<^sup>* s t \<Longrightarrow> inv s \<Longrightarrow> inv t"
  by (induction rule: rtranclp_induct) (auto intro: keeps)

lemma power_keeps: "(step ^^ n) s t \<Longrightarrow> inv s \<Longrightarrow> inv t"
  by (rule run_keeps) (auto simp: rtranclp_power)

end

locale simulation = stepped_invariant step inv
  for step :: "'s \<Rightarrow> 's \<Rightarrow> bool" and inv :: "'s \<Rightarrow> bool" +
  fixes astep :: "'a \<Rightarrow> 'a \<Rightarrow> bool" and abs :: "'s \<Rightarrow> 'a"
  assumes refines: "inv s \<Longrightarrow> step s t \<Longrightarrow> astep\<^sup>=\<^sup>= (abs s) (abs t)"
begin

lemma run_refines: "step\<^sup>*\<^sup>* s t \<Longrightarrow> inv s \<Longrightarrow> astep\<^sup>*\<^sup>* (abs s) (abs t)"
proof (induction rule: rtranclp_induct)
  case (step t u)
  from run_keeps [OF step.hyps(1) step.prems] have "inv t" .
  from refines [OF this step.hyps(2)] step.IH [OF step.prems] show ?case
    by (auto intro: rtranclp.rtrancl_into_rtrancl)
qed simp

text \<open>What the abstract system keeps holds of the abstraction of every run.\<close>

lemma run_abstract_inv:
  assumes "stepped_invariant astep ainv" and "step\<^sup>*\<^sup>* s t" and "inv s" and "ainv (abs s)"
  shows "ainv (abs t)"
  using stepped_invariant.run_keeps [OF assms(1)] run_refines [OF assms(2,3)] assms(4) by blast

end

end
