(* ===== verification/Poller_Threads.thy ===== *)
theory Poller_Threads
  imports Notification_Poller Simulations
begin

text \<open>
  The two threads of \<^verbatim>\<open>NotificationPoller\<close> as a step relation: the polling thread, which adds
  to the counters, and a consumer in \<^verbatim>\<open>consume_packets\<close> or \<^verbatim>\<open>consume_response\<close>. A step is one
  access to shared memory or one operation on the mutex or the condition variable:
  \<^verbatim>\<open>m_packets += payload\<close> and \<^verbatim>\<open>++m_notifications\<close> are a load and a store each, so is the
  consumer's \<^verbatim>\<open>tmp = m_packets; m_packets = 0\<close>, and its
  \<^verbatim>\<open>if (m_notifications > 0) --m_notifications\<close> is a load for the test, a load and a store. A
  waiting consumer may wake at any moment (a
  notification, a spurious wake-up or the time-out). The thread that consumes is also the one that
  destroys the poller: it clears \<^verbatim>\<open>m_running\<close>, which the polling thread tests before every turn, and
  joins. Which step comes next is not determined.

  The theory proves mutual exclusion, that no packet count is lost or invented under any
  interleaving, that the threads refine a counter with two atomic operations, that no consumer is
  ever stuck, and that the destructor ends.
\<close>

subsection \<open>State and steps\<close>

datatype thread = PollingThread | ConsumerThread

datatype poller_pc =
    PollRun
  | PollTurn
  | PollFetched u8 u64
  | PollLocked u8 u64
  | PollLoaded u64 u64
  | PollCounting u64
  | PollStored
  | PollUnlocked
  | PollThrown
  | PollDone

datatype wish = WantPackets | WantResponse

datatype consumer_pc =
    ConsOut
  | ConsEnter wish
  | ConsTest wish
  | ConsBlocked wish
  | ConsReady wish
  | ConsTmp u64
  | ConsZeroed u64
  | ConsAvail
  | ConsTaking u64
  | ConsAnswer bool
  | ConsStopping
  | ConsGone

record threads =
  shared :: NotificationPoller
  mutex :: "thread option"
  poller_at :: poller_pc
  consumer_at :: consumer_pc
  added :: "u64 list"
  taken :: "u64 list"
  responses :: nat
  answered :: nat

text \<open>
  \<open>added\<close>, \<open>taken\<close>, \<open>responses\<close> and \<open>answered\<close> are history: the payloads added to
  \<^verbatim>\<open>m_packets\<close>, the values \<^verbatim>\<open>consume_packets\<close> returned, the responses counted and the calls of
  \<^verbatim>\<open>consume_response\<close> that took one. No step reads them.
\<close>

fun wish_ready :: "wish \<Rightarrow> NotificationPoller \<Rightarrow> bool" where
  "wish_ready WantPackets p = (m_packets p > 0)"
| "wish_ready WantResponse p = (m_notifications p > 0)"

definition threads_init :: "u64 \<Rightarrow> threads" where
  "threads_init port =
     \<lparr>shared = NotificationPoller_new port, mutex = None, poller_at = PollRun,
      consumer_at = ConsOut, added = [], taken = [], responses = 0, answered = 0\<rparr>"

inductive thread_step :: "threads \<Rightarrow> threads \<Rightarrow> bool" where
  turn: "poller_at s = PollRun \<Longrightarrow> m_running (shared s) \<Longrightarrow>
    thread_step s (s\<lparr>poller_at := PollTurn\<rparr>)"
| idle: "poller_at s = PollTurn \<Longrightarrow> thread_step s (s\<lparr>poller_at := PollRun\<rparr>)"
| fetch: "poller_at s = PollTurn \<Longrightarrow>
    thread_step s (s\<lparr>poller_at := PollFetched cls (payload AND 0xffffffff)\<rparr>)"
| invalid_port: "poller_at s = PollTurn \<Longrightarrow>
    thread_step s (s\<lparr>poller_at := PollThrown\<rparr>)"
| lock: "poller_at s = PollFetched cls payload \<Longrightarrow> mutex s = None \<Longrightarrow>
    thread_step s (s\<lparr>mutex := Some PollingThread, poller_at := PollLocked cls payload\<rparr>)"
| load: "poller_at s = PollLocked 0xca payload \<Longrightarrow>
    thread_step s (s\<lparr>poller_at := PollLoaded payload (m_packets (shared s))\<rparr>)"
| store: "poller_at s = PollLoaded payload old \<Longrightarrow>
    thread_step s (s\<lparr>shared := (shared s)\<lparr>m_packets := old + payload\<rparr>,
      poller_at := PollStored, added := added s @ [payload]\<rparr>)"
| load_response: "poller_at s = PollLocked 0x0 payload \<Longrightarrow>
    thread_step s (s\<lparr>poller_at := PollCounting (m_notifications (shared s))\<rparr>)"
| store_response: "poller_at s = PollCounting old \<Longrightarrow>
    thread_step s (s\<lparr>shared := (shared s)\<lparr>m_notifications := old + 1\<rparr>,
      poller_at := PollStored, responses := Suc (responses s)\<rparr>)"
| unknown: "poller_at s = PollLocked cls payload \<Longrightarrow> cls \<noteq> 0xca \<Longrightarrow> cls \<noteq> 0x0 \<Longrightarrow>
    thread_step s (s\<lparr>mutex := None, poller_at := PollThrown\<rparr>)"
| unlock: "poller_at s = PollStored \<Longrightarrow>
    thread_step s (s\<lparr>mutex := None, poller_at := PollUnlocked\<rparr>)"
| notify_all: "poller_at s = PollUnlocked \<Longrightarrow> thread_step s (s\<lparr>poller_at := PollRun\<rparr>)"
| enter: "consumer_at s = ConsOut \<Longrightarrow> poller_at s \<noteq> PollThrown \<Longrightarrow>
    thread_step s (s\<lparr>consumer_at := ConsEnter v\<rparr>)"
| acquire: "consumer_at s = ConsEnter v \<Longrightarrow> mutex s = None \<Longrightarrow> poller_at s \<noteq> PollThrown \<Longrightarrow>
    thread_step s (s\<lparr>mutex := Some ConsumerThread, consumer_at := ConsTest v\<rparr>)"
| test: "consumer_at s = ConsTest v \<Longrightarrow>
    thread_step s (if wish_ready v (shared s) then s\<lparr>consumer_at := ConsReady v\<rparr>
      else s\<lparr>mutex := None, consumer_at := ConsBlocked v\<rparr>)"
| wake: "consumer_at s = ConsBlocked v \<Longrightarrow> mutex s = None \<Longrightarrow> poller_at s \<noteq> PollThrown \<Longrightarrow>
    thread_step s (s\<lparr>mutex := Some ConsumerThread, consumer_at := ConsTest v\<rparr>)"
| timeout: "consumer_at s = ConsBlocked v \<Longrightarrow> mutex s = None \<Longrightarrow> poller_at s \<noteq> PollThrown \<Longrightarrow>
    thread_step s (s\<lparr>mutex := Some ConsumerThread, consumer_at := ConsReady v\<rparr>)"
| read: "consumer_at s = ConsReady WantPackets \<Longrightarrow>
    thread_step s (s\<lparr>consumer_at := ConsTmp (m_packets (shared s))\<rparr>)"
| zero: "consumer_at s = ConsTmp tmp \<Longrightarrow>
    thread_step s (s\<lparr>shared := (shared s)\<lparr>m_packets := 0\<rparr>, consumer_at := ConsZeroed tmp\<rparr>)"
| return_packets: "consumer_at s = ConsZeroed tmp \<Longrightarrow>
    thread_step s (s\<lparr>mutex := None, consumer_at := ConsOut, taken := taken s @ [tmp]\<rparr>)"
| available: "consumer_at s = ConsReady WantResponse \<Longrightarrow> m_notifications (shared s) > 0 \<Longrightarrow>
    thread_step s (s\<lparr>consumer_at := ConsAvail\<rparr>)"
| load_answer: "consumer_at s = ConsAvail \<Longrightarrow>
    thread_step s (s\<lparr>consumer_at := ConsTaking (m_notifications (shared s))\<rparr>)"
| store_answer: "consumer_at s = ConsTaking old \<Longrightarrow>
    thread_step s (s\<lparr>shared := (shared s)\<lparr>m_notifications := old - 1\<rparr>,
      consumer_at := ConsAnswer True, answered := Suc (answered s)\<rparr>)"
| none: "consumer_at s = ConsReady WantResponse \<Longrightarrow> \<not> m_notifications (shared s) > 0 \<Longrightarrow>
    thread_step s (s\<lparr>consumer_at := ConsAnswer False\<rparr>)"
| return_answer: "consumer_at s = ConsAnswer b \<Longrightarrow>
    thread_step s (s\<lparr>mutex := None, consumer_at := ConsOut\<rparr>)"
| stop: "consumer_at s = ConsOut \<Longrightarrow> poller_at s \<noteq> PollThrown \<Longrightarrow>
    thread_step s (s\<lparr>shared := NotificationPoller_delete (shared s), consumer_at := ConsStopping\<rparr>)"
| leave: "poller_at s = PollRun \<Longrightarrow> \<not> m_running (shared s) \<Longrightarrow>
    thread_step s (s\<lparr>poller_at := PollDone\<rparr>)"
| join: "consumer_at s = ConsStopping \<Longrightarrow> poller_at s = PollDone \<Longrightarrow>
    thread_step s (s\<lparr>consumer_at := ConsGone\<rparr>)"

inductive thread_reach :: "u64 \<Rightarrow> threads \<Rightarrow> bool" for port where
  init: "thread_reach port (threads_init port)"
| step: "thread_reach port s \<Longrightarrow> thread_step s t \<Longrightarrow> thread_reach port t"

subsection \<open>The invariant\<close>

fun poller_holds :: "poller_pc \<Rightarrow> bool" where
  "poller_holds (PollLocked cls payload) = True"
| "poller_holds (PollLoaded payload old) = True"
| "poller_holds (PollCounting old) = True"
| "poller_holds PollStored = True"
| "poller_holds _ = False"

fun consumer_holds :: "consumer_pc \<Rightarrow> bool" where
  "consumer_holds (ConsTest v) = True"
| "consumer_holds (ConsReady v) = True"
| "consumer_holds (ConsTmp tmp) = True"
| "consumer_holds (ConsZeroed tmp) = True"
| "consumer_holds ConsAvail = True"
| "consumer_holds (ConsTaking old) = True"
| "consumer_holds (ConsAnswer b) = True"
| "consumer_holds _ = False"

text \<open>What the consumer has taken out of the counter but not yet returned.\<close>

fun in_hand :: "consumer_pc \<Rightarrow> u64" where
  "in_hand (ConsZeroed tmp) = tmp"
| "in_hand _ = 0"

definition lock_inv :: "threads \<Rightarrow> bool" where
  "lock_inv s \<longleftrightarrow>
     (mutex s = Some PollingThread \<longleftrightarrow> poller_holds (poller_at s))
     \<and> (mutex s = Some ConsumerThread \<longleftrightarrow> consumer_holds (consumer_at s))"

definition fresh_inv :: "threads \<Rightarrow> bool" where
  "fresh_inv s \<longleftrightarrow>
     (\<forall>payload old. poller_at s = PollLoaded payload old \<longrightarrow> old = m_packets (shared s))
     \<and> (\<forall>tmp. consumer_at s = ConsTmp tmp \<longrightarrow> tmp = m_packets (shared s))
     \<and> (\<forall>old. poller_at s = PollCounting old \<longrightarrow> old = m_notifications (shared s))
     \<and> (consumer_at s = ConsAvail \<longrightarrow> m_notifications (shared s) > 0)
     \<and> (\<forall>old. consumer_at s = ConsTaking old \<longrightarrow> old = m_notifications (shared s) \<and> old > 0)"

definition count_inv :: "threads \<Rightarrow> bool" where
  "count_inv s \<longleftrightarrow>
     sum_list (added s) = sum_list (taken s) + in_hand (consumer_at s) + m_packets (shared s)"

definition response_inv :: "threads \<Rightarrow> bool" where
  "response_inv s \<longleftrightarrow> of_nat (responses s) = of_nat (answered s) + m_notifications (shared s)"

lemma lock_inv_init: "lock_inv (threads_init port)"
  by (simp add: lock_inv_def threads_init_def)

lemma lock_inv_step: "thread_step s t \<Longrightarrow> lock_inv s \<Longrightarrow> lock_inv t"
  by (induction rule: thread_step.induct) (auto simp: lock_inv_def)

lemma one_holder: "lock_inv s \<Longrightarrow> poller_holds (poller_at s) \<Longrightarrow> \<not> consumer_holds (consumer_at s)"
  by (auto simp: lock_inv_def)

lemma fresh_inv_step: "thread_step s t \<Longrightarrow> lock_inv s \<Longrightarrow> fresh_inv s \<Longrightarrow> fresh_inv t"
  by (induction rule: thread_step.induct) (auto simp: fresh_inv_def NotificationPoller_delete_def dest: one_holder)

lemma count_inv_step:
  "thread_step s t \<Longrightarrow> lock_inv s \<Longrightarrow> fresh_inv s \<Longrightarrow> count_inv s \<Longrightarrow> count_inv t"
  by (induction rule: thread_step.induct)
    (auto simp: count_inv_def fresh_inv_def add.assoc [symmetric] NotificationPoller_delete_def dest: one_holder)

lemma response_inv_step: "thread_step s t \<Longrightarrow> fresh_inv s \<Longrightarrow> response_inv s \<Longrightarrow> response_inv t"
  by (induction rule: thread_step.induct)
    (auto simp: response_inv_def fresh_inv_def NotificationPoller_delete_def algebra_simps)

lemma reach_inv:
  "thread_reach port s \<Longrightarrow> lock_inv s \<and> fresh_inv s \<and> count_inv s \<and> response_inv s"
proof (induction rule: thread_reach.induct)
  case init
  show ?case
    by (simp add: lock_inv_init)
      (simp add: fresh_inv_def count_inv_def response_inv_def threads_init_def NotificationPoller_new_def)
next
  case (step s t)
  then show ?case
    using lock_inv_step fresh_inv_step count_inv_step response_inv_step by blast
qed

subsection \<open>A concrete run\<close>

text \<open>The polling thread adds five packets; for the witnesses.\<close>

lemma packets_loaded:
  "thread_reach 3 ((threads_init 3)\<lparr>mutex := Some PollingThread, poller_at := PollLoaded 5 0\<rparr>)"
proof -
  let ?i = "threads_init 3"
  have "thread_reach 3 (?i\<lparr>poller_at := PollTurn\<rparr>)"
    using thread_reach.step [OF thread_reach.init thread_step.turn [of ?i]]
    by (simp add: threads_init_def NotificationPoller_new_def)
  then have "thread_reach 3 (?i\<lparr>poller_at := PollFetched 0xca 5\<rparr>)"
    by (rule thread_reach.step)
      (use thread_step.fetch [of "?i\<lparr>poller_at := PollTurn\<rparr>" "0xca" 5] in
        \<open>simp add: threads_init_def\<close>)
  then have "thread_reach 3 (?i\<lparr>mutex := Some PollingThread, poller_at := PollLocked 0xca 5\<rparr>)"
    by (rule thread_reach.step)
      (use thread_step.lock [of "?i\<lparr>poller_at := PollFetched 0xca 5\<rparr>" "0xca" 5] in
        \<open>simp add: threads_init_def\<close>)
  then show ?thesis
    by (rule thread_reach.step)
      (use thread_step.load [of "?i\<lparr>mutex := Some PollingThread, poller_at := PollLocked 0xca 5\<rparr>" 5] in
        \<open>simp add: threads_init_def NotificationPoller_new_def\<close>)
qed

lemma packets_added:
  "thread_reach 3 ((threads_init 3)\<lparr>shared := (NotificationPoller_new 3)\<lparr>m_packets := 5\<rparr>, added := [5]\<rparr>)"
proof -
  let ?i = "threads_init 3"
  from packets_loaded
  have "thread_reach 3 (?i\<lparr>shared := (NotificationPoller_new 3)\<lparr>m_packets := 5\<rparr>,
      mutex := Some PollingThread, poller_at := PollStored, added := [5]\<rparr>)"
    by (rule thread_reach.step)
      (use thread_step.store [of "?i\<lparr>mutex := Some PollingThread, poller_at := PollLoaded 5 0\<rparr>" 5 0] in
        \<open>simp add: threads_init_def NotificationPoller_new_def\<close>)
  then have "thread_reach 3 (?i\<lparr>shared := (NotificationPoller_new 3)\<lparr>m_packets := 5\<rparr>,
      poller_at := PollUnlocked, added := [5]\<rparr>)"
    by (rule thread_reach.step)
      (use thread_step.unlock [of "?i\<lparr>shared := (NotificationPoller_new 3)\<lparr>m_packets := 5\<rparr>,
          mutex := Some PollingThread, poller_at := PollStored, added := [5]\<rparr>"] in
        \<open>simp add: threads_init_def\<close>)
  then show ?thesis
    by (rule thread_reach.step)
      (use thread_step.notify_all [of "?i\<lparr>shared := (NotificationPoller_new 3)\<lparr>m_packets := 5\<rparr>,
          poller_at := PollUnlocked, added := [5]\<rparr>"] in
        \<open>simp add: threads_init_def\<close>)
qed

subsection \<open>Properties of the two threads\<close>

text \<open>
  C12: the polling thread and a consumer are never inside the critical section at the same time,
  and a value one of them has loaded from \<^verbatim>\<open>m_packets\<close> or \<^verbatim>\<open>m_notifications\<close> is still the current
  one when it stores; a response found available is still there when it is taken.
\<close>

theorem mutual_exclusion:
  assumes "thread_reach port s"
  shows "\<not> (poller_holds (poller_at s) \<and> consumer_holds (consumer_at s))
    \<and> (case poller_at s of PollLoaded payload old \<Rightarrow> old = m_packets (shared s) | _ \<Rightarrow> True)
    \<and> (case consumer_at s of ConsTmp tmp \<Rightarrow> tmp = m_packets (shared s) | _ \<Rightarrow> True)
    \<and> (case poller_at s of PollCounting old \<Rightarrow> old = m_notifications (shared s) | _ \<Rightarrow> True)
    \<and> (case consumer_at s of ConsAvail \<Rightarrow> m_notifications (shared s) > 0
        | ConsTaking old \<Rightarrow> old = m_notifications (shared s) \<and> old > 0 | _ \<Rightarrow> True)"
  using reach_inv [OF assms] one_holder
  by (auto simp: fresh_inv_def split: poller_pc.splits consumer_pc.splits)

theorem mutual_exclusion_witness:
  "\<not> (poller_holds (PollLoaded 5 0) \<and> consumer_holds ConsOut)
    \<and> (0::u64) = m_packets (NotificationPoller_new 3)"
  using mutual_exclusion [OF packets_loaded] by (simp add: threads_init_def)

text \<open>
  C10: no update is lost under any interleaving: what the notifications added is what the
  consumers were given, plus what a consumer has in hand, plus what is still in the counter;
  and the responses counted are those answered plus those still in their counter.
\<close>

theorem no_lost_packets:
  assumes "thread_reach port s"
  shows "sum_list (added s) = sum_list (taken s) + in_hand (consumer_at s) + m_packets (shared s)
    \<and> of_nat (responses s) = of_nat (answered s) + m_notifications (shared s)"
  using reach_inv [OF assms] by (simp add: count_inv_def response_inv_def)

theorem no_lost_packets_witness:
  "sum_list [5] = sum_list [] + 0 + (5::u64) \<and> of_nat 0 = of_nat 0 + (0::u64)"
  using no_lost_packets [OF packets_added] by (simp add: threads_init_def NotificationPoller_new_def)

text \<open>
  The abstract counter: a pending count with two atomic operations, and what it has handed out.
\<close>

inductive counter_step :: "u64 \<times> u64 list \<Rightarrow> u64 \<times> u64 list \<Rightarrow> bool" where
  add: "counter_step (pending, outs) (pending + n, outs)"
| take_all: "counter_step (pending, outs) (0, outs @ [pending])"

definition counter_of :: "threads \<Rightarrow> u64 \<times> u64 list" where
  "counter_of s = (m_packets (shared s),
     taken s @ (case consumer_at s of ConsZeroed tmp \<Rightarrow> [tmp] | _ \<Rightarrow> []))"

lemma thread_step_refines:
  assumes "thread_step s t" and "fresh_inv s"
  shows "counter_step\<^sup>=\<^sup>= (counter_of s) (counter_of t)"
  using assms
proof (induction rule: thread_step.induct)
  case (store s payload old)
  then have "old = m_packets (shared s)" by (simp add: fresh_inv_def)
  then show ?case by (simp add: counter_of_def counter_step.add)
next
  case (zero s tmp)
  then have "tmp = m_packets (shared s)" by (simp add: fresh_inv_def)
  with zero.hyps show ?case by (simp add: counter_of_def counter_step.take_all)
qed (auto simp: counter_of_def NotificationPoller_delete_def split: consumer_pc.splits)

interpretation counter_sim:
  simulation thread_step "\<lambda>s. lock_inv s \<and> fresh_inv s" counter_step counter_of
proof
  fix s t
  assume inv: "lock_inv s \<and> fresh_inv s" and step: "thread_step s t"
  then show "lock_inv t \<and> fresh_inv t" by (simp add: lock_inv_step fresh_inv_step)
  from inv step show "counter_step\<^sup>=\<^sup>= (counter_of s) (counter_of t)" by (intro thread_step_refines) simp_all
qed

lemma thread_reach_run: "thread_reach port s \<longleftrightarrow> thread_step\<^sup>*\<^sup>* (threads_init port) s"
proof
  show "thread_reach port s \<Longrightarrow> thread_step\<^sup>*\<^sup>* (threads_init port) s"
    by (induction rule: thread_reach.induct) (auto intro: rtranclp.rtrancl_into_rtrancl)
  show "thread_step\<^sup>*\<^sup>* (threads_init port) s \<Longrightarrow> thread_reach port s"
    by (induction rule: rtranclp_induct) (auto intro: thread_reach.intros)
qed

text \<open>
  The two threads refine the atomic counter: with the loads and stores interleaved in any
  way, what the consumers are given and what is pending is what some sequence of atomic
  additions and atomic take-alls produces.
\<close>

theorem threads_refine_counter:
  assumes "thread_reach port s"
  shows "counter_step\<^sup>*\<^sup>* (0, []) (counter_of s)"
  using counter_sim.run_refines [of "threads_init port" s] assms lock_inv_init [of port]
  unfolding thread_reach_run
  by (simp add: counter_of_def threads_init_def NotificationPoller_new_def fresh_inv_def)

theorem threads_refine_counter_witness: "counter_step\<^sup>*\<^sup>* (0, []) (5, [])"
  using threads_refine_counter [OF packets_added]
  by (simp add: counter_of_def threads_init_def)

subsection \<open>No deadlock\<close>

text \<open>Some way to go on lets the consumer return, or ends the process, within \<open>n\<close> steps.\<close>

definition returns_within :: "nat \<Rightarrow> threads \<Rightarrow> bool" where
  "returns_within n s \<longleftrightarrow>
     (\<exists>k t. k \<le> n \<and> (thread_step ^^ k) s t \<and> (consumer_at t = ConsOut \<or> poller_at t = PollThrown))"

lemma returns_now: "consumer_at s = ConsOut \<or> poller_at s = PollThrown \<Longrightarrow> returns_within n s"
  unfolding returns_within_def by (intro exI [of _ 0]) auto

lemma returns_step: "thread_step s u \<Longrightarrow> returns_within n u \<Longrightarrow> returns_within (Suc n) s"
  unfolding returns_within_def by (metis Suc_le_mono relpowp_Suc_I2)

lemma returns_mono: "returns_within n s \<Longrightarrow> n \<le> m \<Longrightarrow> returns_within m s"
  unfolding returns_within_def by (meson le_trans)

lemma returns_zeroed: "consumer_at s = ConsZeroed tmp \<Longrightarrow> returns_within 1 s"
  unfolding One_nat_def by (rule returns_step [OF thread_step.return_packets]) (auto intro: returns_now)

lemma returns_answer: "consumer_at s = ConsAnswer b \<Longrightarrow> returns_within 1 s"
  unfolding One_nat_def by (rule returns_step [OF thread_step.return_answer]) (auto intro: returns_now)

lemma returns_tmp: "consumer_at s = ConsTmp tmp \<Longrightarrow> returns_within 2 s"
  unfolding numeral_2_eq_2
  by (rule returns_step [OF thread_step.zero]) (auto intro: returns_zeroed [unfolded One_nat_def])

lemma returns_taking: "consumer_at s = ConsTaking old \<Longrightarrow> returns_within 2 s"
  unfolding numeral_2_eq_2
  by (rule returns_step [OF thread_step.store_answer]) (auto intro: returns_answer [unfolded One_nat_def])

lemma returns_avail: "consumer_at s = ConsAvail \<Longrightarrow> returns_within 3 s"
  unfolding numeral_3_eq_3
  by (rule returns_step [OF thread_step.load_answer]) (auto intro: returns_taking [unfolded numeral_2_eq_2])

lemma returns_ready:
  assumes "consumer_at s = ConsReady v"
  shows "returns_within 4 s"
proof (cases v)
  case WantPackets
  with assms have "returns_within (Suc 2) s"
    by (intro returns_step [OF thread_step.read [of s]] returns_tmp) simp_all
  then show ?thesis by (rule returns_mono) simp
next
  case WantResponse
  show ?thesis
  proof (cases "m_notifications (shared s) > 0")
    case True
    with assms WantResponse have "returns_within (Suc 3) s"
      by (intro returns_step [OF thread_step.available [of s]] returns_avail) simp_all
    then show ?thesis by simp
  next
    case False
    with assms WantResponse have "returns_within (Suc 1) s"
      by (intro returns_step [OF thread_step.none [of s]] returns_answer) simp_all
    then show ?thesis by (rule returns_mono) simp
  qed
qed

lemma returns_blocked:
  assumes "consumer_at s = ConsBlocked v" and "mutex s = None"
  shows "returns_within 5 s"
proof (cases "poller_at s = PollThrown")
  case False
  from returns_step [OF thread_step.timeout [OF assms False] returns_ready] show ?thesis by simp
qed (simp add: returns_now)

lemma returns_test:
  assumes "consumer_at s = ConsTest v"
  shows "returns_within 6 s"
proof -
  have "returns_within 5 (if wish_ready v (shared s) then s\<lparr>consumer_at := ConsReady v\<rparr>
      else s\<lparr>mutex := None, consumer_at := ConsBlocked v\<rparr>)"
    by (auto intro: returns_blocked returns_mono [OF returns_ready])
  from returns_step [OF thread_step.test [OF assms] this] show ?thesis by simp
qed

definition waits :: "threads \<Rightarrow> bool" where
  "waits s \<longleftrightarrow> (\<exists>v. consumer_at s = ConsEnter v \<or> consumer_at s = ConsBlocked v)"

lemma returns_free:
  assumes "waits s" and "mutex s = None"
  shows "returns_within 7 s"
proof (cases "poller_at s = PollThrown")
  case False
  from assms(1) consider v where "consumer_at s = ConsEnter v" | v where "consumer_at s = ConsBlocked v"
    by (auto simp: waits_def)
  then show ?thesis
  proof cases
    case 1
    from returns_step [OF thread_step.acquire [OF 1 assms(2) False] returns_test] show ?thesis by simp
  next
    case 2
    from returns_mono [OF returns_blocked [OF 2 assms(2)]] show ?thesis by simp
  qed
qed (simp add: returns_now)

text \<open>The polling thread inside the critical section leaves it by itself.\<close>

lemma returns_stored: "waits s \<Longrightarrow> poller_at s = PollStored \<Longrightarrow> returns_within 8 s"
  using returns_step [OF thread_step.unlock returns_free] by (simp add: waits_def)

lemma returns_loaded: "waits s \<Longrightarrow> poller_at s = PollLoaded payload old \<Longrightarrow> returns_within 9 s"
  using returns_step [OF thread_step.store returns_stored] by (simp add: waits_def)

lemma returns_counting: "waits s \<Longrightarrow> poller_at s = PollCounting old \<Longrightarrow> returns_within 9 s"
  using returns_step [OF thread_step.store_response returns_stored] by (simp add: waits_def)

lemma returns_locked:
  assumes "waits s" and "poller_at s = PollLocked cls payload"
  shows "returns_within 10 s"
proof -
  consider "cls = 0xca" | "cls = 0x0" | "cls \<noteq> 0xca" "cls \<noteq> 0x0" by blast
  then show ?thesis
  proof cases
    case 1
    with assms returns_step [OF thread_step.load [of s payload] returns_loaded] show ?thesis
      by (simp add: waits_def)
  next
    case 2
    with assms returns_step [OF thread_step.load_response [of s payload] returns_counting]
    show ?thesis by (simp add: waits_def)
  next
    case 3
    from returns_mono [OF returns_step [OF thread_step.unknown [OF assms(2) 3] returns_now [of _ 0]], of 10]
    show ?thesis by simp
  qed
qed

lemma reachable_returns:
  assumes "lock_inv s" and "consumer_at s \<notin> {ConsStopping, ConsGone}"
  shows "returns_within 10 s"
proof (cases "waits s")
  case True
  show ?thesis
  proof (cases "mutex s")
    case None
    from returns_mono [OF returns_free [OF True None]] show ?thesis by simp
  next
    case (Some h)
    with assms(1) True have "poller_holds (poller_at s)" by (cases h) (auto simp: lock_inv_def waits_def)
    then show ?thesis
      using returns_mono [OF returns_stored [OF True]] returns_mono [OF returns_loaded [OF True]]
        returns_mono [OF returns_counting [OF True]]
        returns_locked [OF True] by (cases "poller_at s") auto
  qed
next
  case False
  with assms(2) show ?thesis
    using returns_mono [OF returns_zeroed, of s _ 10] returns_mono [OF returns_answer, of s _ 10]
      returns_mono [OF returns_tmp, of s _ 10] returns_mono [OF returns_ready, of s _ 10]
      returns_mono [OF returns_avail, of s 10] returns_mono [OF returns_taking, of s _ 10]
      returns_mono [OF returns_test, of s _ 10] returns_now [of s 10]
    by (cases "consumer_at s") (auto simp: waits_def)
qed

text \<open>
  C11: the two threads never deadlock and a consumer is never stuck: from every reachable state before destruction at
  most ten steps, three of the polling thread to leave the critical section and seven of the consumer
  through its time-out, bring the consumer back to its caller, unless the polling thread meets an
  unknown notification and ends the process.
\<close>

theorem consumer_can_return:
  assumes "thread_reach port s" and "consumer_at s \<notin> {ConsStopping, ConsGone}"
  shows "\<exists>k t. k \<le> 10 \<and> (thread_step ^^ k) s t \<and> (consumer_at t = ConsOut \<or> poller_at t = PollThrown)"
  using reachable_returns [of s] reach_inv [OF assms(1)] assms(2) by (simp add: returns_within_def)

theorem consumer_can_return_witness:
  "\<exists>k t. k \<le> 10
    \<and> (thread_step ^^ k) ((threads_init 3)\<lparr>mutex := Some PollingThread, poller_at := PollLoaded 5 0,
         consumer_at := ConsEnter WantPackets\<rparr>) t
    \<and> (consumer_at t = ConsOut \<or> poller_at t = PollThrown)"
proof (rule consumer_can_return)
  let ?s = "(threads_init 3)\<lparr>mutex := Some PollingThread, poller_at := PollLoaded 5 0\<rparr>"
  from thread_reach.step [OF packets_loaded thread_step.enter [of ?s WantPackets]]
  show "thread_reach 3 ((threads_init 3)\<lparr>mutex := Some PollingThread, poller_at := PollLoaded 5 0,
      consumer_at := ConsEnter WantPackets\<rparr>)" by (simp add: threads_init_def)
qed simp

subsection \<open>The destructor ends\<close>

definition stopping :: "threads \<Rightarrow> bool" where
  "stopping s \<longleftrightarrow> consumer_at s \<in> {ConsStopping, ConsGone} \<and> \<not> m_running (shared s)"

fun poller_left :: "poller_pc \<Rightarrow> nat" where
  "poller_left PollTurn = 7"
| "poller_left (PollFetched cls payload) = 6"
| "poller_left (PollLocked cls payload) = 5"
| "poller_left (PollLoaded payload old) = 4"
| "poller_left (PollCounting old) = 4"
| "poller_left PollStored = 3"
| "poller_left PollUnlocked = 2"
| "poller_left PollRun = 1"
| "poller_left _ = 0"

text \<open>The steps that are left once the flag is cleared.\<close>

definition steps_left :: "threads \<Rightarrow> nat" where
  "steps_left s = poller_left (poller_at s) + (if consumer_at s = ConsStopping then 1 else 0)"

lemma stopping_reach:
  "thread_reach port s \<Longrightarrow> consumer_at s \<in> {ConsStopping, ConsGone} \<longrightarrow> \<not> m_running (shared s)"
proof (induction rule: thread_reach.induct)
  case init
  show ?case by (simp add: threads_init_def)
next
  case (step s t)
  from step.hyps(2) step.IH show ?case
    by (cases rule: thread_step.cases) (auto simp: NotificationPoller_delete_def)
qed

lemma stopping_step: "thread_step s t \<Longrightarrow> stopping s \<Longrightarrow> stopping t \<and> steps_left t < steps_left s"
  by (induction rule: thread_step.induct) (auto simp: stopping_def steps_left_def)

lemma stopping_steps:
  "(thread_step ^^ k) s t \<Longrightarrow> stopping s \<Longrightarrow> stopping t \<and> k + steps_left t \<le> steps_left s"
proof (induction k arbitrary: t)
  case (Suc k)
  from Suc.prems(1) obtain u where u: "(thread_step ^^ k) s u" "thread_step u t" by auto
  from Suc.IH [OF u(1) Suc.prems(2)] stopping_step [OF u(2)] show ?case by auto
qed simp

lemma stopping_goes_on:
  assumes "stopping s" and "lock_inv s" and "\<And>u. \<not> thread_step s u"
  shows "consumer_at s = ConsGone \<or> poller_at s = PollThrown"
proof (rule ccontr)
  assume not_done: "\<not> ?thesis"
  with assms(1) have c: "consumer_at s = ConsStopping" "\<not> m_running (shared s)"
    by (auto simp: stopping_def)
  show False
  proof (cases "poller_at s")
    case PollRun
    with c assms(3) thread_step.leave [of s] show False by blast
  next
    case (PollFetched cls payload)
    with assms(2) c have "mutex s \<noteq> Some h" for h by (cases h) (auto simp: lock_inv_def)
    then have "mutex s = None" by (cases "mutex s") auto
    with PollFetched assms(3) thread_step.lock [of s] show False by blast
  next
    case (PollLocked cls payload)
    with assms(3) thread_step.load [of s] thread_step.load_response [of s] thread_step.unknown [of s cls payload]
    show False by blast
  next
    case (PollLoaded payload old)
    with assms(3) thread_step.store [of s] show False by blast
  next
    case (PollCounting old)
    with assms(3) thread_step.store_response [of s] show False by blast
  next
    case PollStored
    with assms(3) thread_step.unlock [of s] show False by blast
  next
    case PollUnlocked
    with assms(3) thread_step.notify_all [of s] show False by blast
  next
    case PollTurn
    with assms(3) thread_step.idle [of s] show False by blast
  next
    case PollThrown
    with not_done show False by blast
  next
    case PollDone
    with c assms(3) thread_step.join [of s] show False by blast
  qed
qed

text \<open>
  C30: the destructor always ends: from the moment it has cleared \<^verbatim>\<open>m_running\<close>, every run of the two
  threads has at most eight more steps, whatever the polling thread was doing and whichever
  notification it has in hand, and a run that cannot go on has joined the polling thread, or the
  polling thread has ended the process.
\<close>

theorem destructor_joins:
  assumes "thread_reach port s" and "consumer_at s = ConsStopping" and "(thread_step ^^ k) s t"
  shows "k \<le> 8 \<and> ((\<exists>u. thread_step t u) \<or> consumer_at t = ConsGone \<or> poller_at t = PollThrown)"
proof -
  from stopping_reach [OF assms(1)] assms(2) have s: "stopping s" by (auto simp: stopping_def)
  from assms(2) have "steps_left s \<le> 8" by (cases "poller_at s") (simp_all add: steps_left_def)
  with stopping_steps [OF assms(3) s] have "k \<le> 8" "stopping t" by simp_all
  moreover have "thread_reach port t"
    using assms(3)
  proof (induction k arbitrary: t)
    case 0
    with assms(1) show ?case by simp
  next
    case (Suc k)
    then show ?case by (auto intro: thread_reach.step)
  qed
  ultimately show ?thesis using stopping_goes_on [of t] reach_inv by blast
qed

text \<open>The polling thread is about to store when the destructor clears the flag.\<close>

definition stopped_midway :: threads where
  "stopped_midway = (threads_init 3)\<lparr>shared := NotificationPoller_delete (NotificationPoller_new 3),
     mutex := Some PollingThread, poller_at := PollLoaded 5 0, consumer_at := ConsStopping\<rparr>"

theorem destructor_joins_witness:
  "(\<exists>u. thread_step stopped_midway u) \<and> \<not> (thread_step ^^ 9) stopped_midway stopped_midway"
proof -
  let ?s = "(threads_init 3)\<lparr>mutex := Some PollingThread, poller_at := PollLoaded 5 0\<rparr>"
  from thread_reach.step [OF packets_loaded thread_step.stop [of ?s]]
  have r: "thread_reach 3 stopped_midway" by (simp add: stopped_midway_def threads_init_def)
  have c: "consumer_at stopped_midway = ConsStopping" by (simp add: stopped_midway_def)
  from destructor_joins [OF r c, of 0 stopped_midway] destructor_joins [OF r c, of 9 stopped_midway] show ?thesis
    by (auto simp: stopped_midway_def)
qed

end
