(* ===== verification/Poller_Start.thy ===== *)
theory Poller_Start
  imports Poller_Threads
begin

text \<open>
  The construction of a \<^verbatim>\<open>NotificationPoller\<close>. Members are initialised in the order of their
  declaration in \<^verbatim>\<open>notification_poller.h\<close>, and the polling thread runs from the moment \<^verbatim>\<open>m_thread\<close> is
  initialised. Only the body of the constructor gives \<^verbatim>\<open>cpu\<close> a value. Construction is safe for a set of
  members when the thread never accesses one of them before it has its initial value; the theory shows
  for every order of declaration and every set of members when that is so, and for which members the
  order of the source is not.
\<close>

subsection \<open>Initialisation beside the running thread\<close>

datatype poller_member =
    Member_port | Member_packets | Member_notifications | Member_running
  | Member_thread | Member_mutex | Member_cv | Member_cpu

definition member_order :: "poller_member list" where
  "member_order = [Member_port, Member_packets, Member_notifications, Member_running,
     Member_thread, Member_mutex, Member_cv, Member_cpu]"

text \<open>
  What has its value after \<open>k\<close> steps of the constructor: the members in order, then the body, whose
  \<^verbatim>\<open>CPU_SET\<close> is the first write to \<^verbatim>\<open>cpu\<close>.
\<close>

definition initialised :: "poller_member list \<Rightarrow> nat \<Rightarrow> poller_member set" where
  "initialised order k =
     (set (take k order) - {Member_cpu}) \<union> (if length order < k then {Member_cpu} else {})"

text \<open>
  A state is the progress of the constructor, whether the thread has passed its
  \<^verbatim>\<open>sched_setaffinity\<close>, and the threads. The steps of the polling thread are those that leave the
  consumer out, because nobody can call an object under construction.
\<close>

inductive start_step ::
  "poller_member list \<Rightarrow> nat \<times> bool \<times> threads \<Rightarrow> nat \<times> bool \<times> threads \<Rightarrow> bool" for order where
  initialise: "k \<le> length order \<Longrightarrow> start_step order (k, b, t) (Suc k, b, t)"
| thread_affinity: "Member_thread \<in> initialised order k \<Longrightarrow> start_step order (k, False, t) (k, True, t)"
| thread_runs: "Member_thread \<in> initialised order k \<Longrightarrow> thread_step t u \<Longrightarrow> consumer_at u = ConsOut \<Longrightarrow>
    start_step order (k, True, t) (k, True, u)"

inductive_cases start_stepE [elim!]: "start_step order (k, b, t) s"

text \<open>The members that the next statement of the polling thread accesses.\<close>

fun touches :: "poller_pc \<Rightarrow> poller_member set" where
  "touches PollRun = {Member_running}"
| "touches PollTurn = {Member_port}"
| "touches (PollFetched cls payload) = {Member_mutex}"
| "touches (PollLocked cls payload) =
     (if cls = 0xca then {Member_packets} else if cls = 0x0 then {Member_notifications} else {Member_mutex})"
| "touches (PollLoaded payload old) = {Member_packets}"
| "touches (PollCounting old) = {Member_notifications}"
| "touches PollStored = {Member_mutex}"
| "touches PollUnlocked = {Member_cv}"
| "touches _ = {}"

definition next_access :: "bool \<Rightarrow> threads \<Rightarrow> poller_member set" where
  "next_access b t = (if b then touches (poller_at t) else {Member_cpu})"

definition safe_start :: "poller_member set \<Rightarrow> poller_member list \<Rightarrow> bool" where
  "safe_start M order \<longleftrightarrow> (\<forall>port k b t. (start_step order)\<^sup>*\<^sup>* (0, False, threads_init port) (k, b, t) \<longrightarrow>
     Member_thread \<in> initialised order k \<longrightarrow> M \<inter> next_access b t \<subseteq> initialised order k)"

text \<open>Wherever the thread is initialised, the members are.\<close>

definition thread_after :: "poller_member set \<Rightarrow> poller_member list \<Rightarrow> bool" where
  "thread_after M order \<longleftrightarrow> (\<forall>k \<le> Suc (length order).
     Member_thread \<in> initialised order k \<longrightarrow> M - {Member_thread} \<subseteq> initialised order k)"

subsection \<open>What the thread reaches\<close>

interpretation start_system: stepped_invariant "start_step order" "\<lambda>s. fst s \<le> Suc (length order)" for order
proof
  fix s t
  assume "fst s \<le> Suc (length order)" and "start_step order s t"
  then show "fst t \<le> Suc (length order)" by (cases s) auto
qed

lemma initialise_run:
  "k \<le> Suc (length order) \<Longrightarrow> (start_step order)\<^sup>*\<^sup>* (0, b, t) (k, b, t)"
proof (induction k)
  case (Suc k)
  from Suc.prems have k: "k \<le> length order" by simp
  from run_step [OF Suc.IH start_step.initialise [OF k]] k show ?case by simp
qed simp

text \<open>Once started, the thread can come to access every member but itself.\<close>

definition alone_step :: "threads \<Rightarrow> threads \<Rightarrow> bool" where
  "alone_step t u \<longleftrightarrow> thread_step t u \<and> consumer_at u = ConsOut"

lemma alone_run:
  "alone_step\<^sup>*\<^sup>* t u \<Longrightarrow> Member_thread \<in> initialised order k \<Longrightarrow>
   (start_step order)\<^sup>*\<^sup>* (k, True, t) (k, True, u)"
proof (induction rule: rtranclp_induct)
  case (step u v)
  then have "start_step order (k, True, u) (k, True, v)"
    by (intro start_step.thread_runs) (simp_all add: alone_step_def)
  with step.IH [OF step.prems] show ?case by (rule run_step)
qed simp

lemma thread_touches:
  assumes "m \<noteq> Member_thread" and "m \<noteq> Member_cpu"
  shows "\<exists>u. alone_step\<^sup>*\<^sup>* (threads_init port) u \<and> m \<in> touches (poller_at u)"
proof -
  define a where "a = threads_init port"
  define b where "b = a\<lparr>poller_at := PollTurn\<rparr>"
  define c where "c = b\<lparr>poller_at := PollFetched 0xca 0\<rparr>"
  define d where "d = c\<lparr>mutex := Some PollingThread, poller_at := PollLocked 0xca 0\<rparr>"
  define e where "e = d\<lparr>poller_at := PollLoaded 0 0\<rparr>"
  define f where "f = e\<lparr>poller_at := PollStored, added := [0]\<rparr>"
  define g where "g = f\<lparr>mutex := None, poller_at := PollUnlocked\<rparr>"
  define c' where "c' = b\<lparr>poller_at := PollFetched 0x0 0\<rparr>"
  define d' where "d' = c'\<lparr>mutex := Some PollingThread, poller_at := PollLocked 0x0 0\<rparr>"
  note defs = alone_step_def a_def b_def c_def d_def e_def f_def g_def c'_def d'_def
    threads_init_def NotificationPoller_new_def
  have 1: "alone_step a b" using thread_step.turn [of a] by (simp add: defs)
  have 2: "alone_step b c" using thread_step.fetch [of b "0xca" 0] by (simp add: defs)
  have 3: "alone_step c d" using thread_step.lock [of c "0xca" 0] by (simp add: defs)
  have 4: "alone_step d e" using thread_step.load [of d 0] by (simp add: defs)
  have 5: "alone_step e f" using thread_step.store [of e 0 0] by (simp add: defs)
  have 6: "alone_step f g" using thread_step.unlock [of f] by (simp add: defs)
  have 7: "alone_step b c'" using thread_step.fetch [of b "0x0" 0] by (simp add: defs)
  have 8: "alone_step c' d'" using thread_step.lock [of c' "0x0" 0] by (simp add: defs)
  note ab = r_into_rtranclp [of alone_step, OF 1]
  note ac = run_step [OF ab 2]
  note ad = run_step [OF ac 3]
  note ag = run_step [OF run_step [OF run_step [OF ad 4] 5] 6]
  note ad' = run_step [OF run_step [OF ab 7] 8]
  have aa: "alone_step\<^sup>*\<^sup>* a a" by simp
  have "poller_at a = PollRun" "poller_at b = PollTurn" "poller_at c = PollFetched 0xca 0"
    "poller_at d = PollLocked 0xca 0" "poller_at g = PollUnlocked" "poller_at d' = PollLocked 0x0 0"
    by (simp_all add: defs)
  with assms aa ab ac ad ag ad' show ?thesis unfolding a_def [symmetric]
    by (cases m) (force intro: exI)+
qed

lemma thread_accesses:
  assumes "m \<noteq> Member_thread" and "Member_thread \<in> initialised order k" and "k \<le> Suc (length order)"
  shows "\<exists>b t. (start_step order)\<^sup>*\<^sup>* (0, False, threads_init port) (k, b, t) \<and> m \<in> next_access b t"
proof (cases "m = Member_cpu")
  case True
  with initialise_run [OF assms(3), of False "threads_init port"] show ?thesis
    by (intro exI conjI) (assumption, simp add: next_access_def)
next
  case False
  from thread_touches [OF assms(1) False, of port] obtain u where
    u: "alone_step\<^sup>*\<^sup>* (threads_init port) u" "m \<in> touches (poller_at u)" by blast
  from run_step [OF initialise_run [OF assms(3)] start_step.thread_affinity [OF assms(2)]]
  have "(start_step order)\<^sup>*\<^sup>* (0, False, threads_init port) (k, True, threads_init port)" .
  also have "(start_step order)\<^sup>*\<^sup>* (k, True, threads_init port) (k, True, u)"
    by (rule alone_run [OF u(1) assms(2)])
  finally show ?thesis using u(2) by (intro exI conjI) (assumption, simp add: next_access_def)
qed

lemma next_access_not_thread: "Member_thread \<notin> next_access b t"
  by (cases "poller_at t") (auto simp: next_access_def)

lemma safe_start_iff: "safe_start M order \<longleftrightarrow> thread_after M order"
proof
  assume safe: "safe_start M order"
  show "thread_after M order"
    unfolding thread_after_def
  proof (intro allI impI subsetI)
    fix k m
    assume k: "k \<le> Suc (length order)" "Member_thread \<in> initialised order k" and m: "m \<in> M - {Member_thread}"
    then obtain b t where "(start_step order)\<^sup>*\<^sup>* (0, False, threads_init 0) (k, b, t)" "m \<in> next_access b t"
      using thread_accesses [of m order k 0] by blast
    with safe k(2) m show "m \<in> initialised order k" unfolding safe_start_def by blast
  qed
next
  assume after: "thread_after M order"
  show "safe_start M order"
    unfolding safe_start_def
  proof (intro allI impI)
    fix port k b t
    assume run: "(start_step order)\<^sup>*\<^sup>* (0, False, threads_init port) (k, b, t)"
      and thread: "Member_thread \<in> initialised order k"
    from start_system.run_keeps [OF run] have "k \<le> Suc (length order)" by simp
    with after thread have "M - {Member_thread} \<subseteq> initialised order k" unfolding thread_after_def by blast
    with next_access_not_thread [of b t] show "M \<inter> next_access b t \<subseteq> initialised order k" by blast
  qed
qed

lemma thread_at:
  "initialised (xs @ Member_thread # ys) (Suc (length xs)) = set (Member_thread # xs) - {Member_cpu}"
  by (auto simp: initialised_def)

lemma thread_before: "m \<notin> set (take 5 member_order) \<Longrightarrow> \<not> thread_after {m} member_order"
  unfolding thread_after_def
  by (intro notI) (drule spec [of _ 5], auto simp: member_order_def initialised_def eval_nat_numeral)

text \<open>
  C28: for every order of declaration and every set of members, construction is safe for these members
  exactly when each of them has its value wherever the thread is initialised. The order of the source is
  safe for the port, the counters and the running flag, but not for \<^verbatim>\<open>m_mutex\<close>, \<^verbatim>\<open>m_cv\<close> and \<^verbatim>\<open>cpu\<close>: the
  thread can lock the mutex, notify the condition variable and read the CPU set before they have a
  value. Declaring the thread last makes it safe for all members except \<^verbatim>\<open>cpu\<close>, for which no order is
  safe, because only the body of the constructor writes it.
\<close>

theorem polling_thread_starts_early:
  "safe_start M order = thread_after M order
   \<and> safe_start {Member_port, Member_packets, Member_notifications, Member_running} member_order
   \<and> \<not> safe_start {Member_mutex} member_order
   \<and> \<not> safe_start {Member_cv} member_order
   \<and> \<not> safe_start {Member_cpu} member_order
   \<and> safe_start (- {Member_cpu}) (remove1 Member_thread member_order @ [Member_thread])
   \<and> \<not> safe_start {Member_cpu} (xs @ Member_thread # ys)"
proof -
  have early: "thread_after {Member_port, Member_packets, Member_notifications, Member_running} member_order"
    unfolding thread_after_def by (auto simp: member_order_def initialised_def le_Suc_eq eval_nat_numeral)
  have last: "thread_after (- {Member_cpu}) (remove1 Member_thread member_order @ [Member_thread])"
  proof -
    have "m \<in> set member_order" for m by (cases m) (simp_all add: member_order_def)
    then show ?thesis
      unfolding thread_after_def by (auto simp: member_order_def initialised_def le_Suc_eq eval_nat_numeral)
  qed
  have "\<not> thread_after {Member_cpu} (xs @ Member_thread # ys)"
    unfolding thread_after_def
    by (intro notI) (drule spec [of _ "Suc (length xs)"], simp add: thread_at)
  with early last thread_before [of Member_mutex] thread_before [of Member_cv] thread_before [of Member_cpu]
  show ?thesis by (simp add: safe_start_iff) (simp add: member_order_def)
qed

end
