(* ===== verification/Poller_Affinity.thy ===== *)
theory Poller_Affinity
  imports Simulations
begin

text \<open>
  The CPU affinity of a \<^verbatim>\<open>NotificationPoller\<close>: "used to restrict process to single CPU to avoid
  notification latency issues". The constructor enters its current CPU into the member \<^verbatim>\<open>cpu\<close>, which
  is not cleared before, and restricts itself to it; the polling thread restricts itself to the same
  member, but it runs since \<^verbatim>\<open>m_thread\<close> was initialised. CPUs are numbers, a \<^verbatim>\<open>cpu_set_t\<close> is the set of
  those entered, and single reads and writes of it are atomic here (in the source they race).
\<close>

subsection \<open>State and steps\<close>

datatype ctor_action = Start_thread | Enter_cpu | Restrict_self

text \<open>Member initialisers run before the body.\<close>

definition ctor_actions :: "ctor_action list" where
  "ctor_actions = [Start_thread, Enter_cpu, Restrict_self]"

record affinity =
  ctor_todo :: "ctor_action list"
  cpu :: "nat set"
  ctor_mask :: "nat set"
  thread_mask :: "nat set option"
  thread_restricted :: bool

text \<open>
  A new thread inherits the mask of its creator. \<open>K req old\<close> is the mask that \<^verbatim>\<open>sched_setaffinity\<close>
  with the set \<open>req\<close> leaves to a thread whose mask was \<open>old\<close>; its return value is ignored.
\<close>

inductive affinity_step :: "(nat set \<Rightarrow> nat set \<Rightarrow> nat set) \<Rightarrow> affinity \<Rightarrow> affinity \<Rightarrow> bool" for K where
  start_thread: "ctor_todo s = Start_thread # as \<Longrightarrow>
    affinity_step K s (s\<lparr>ctor_todo := as, thread_mask := Some (ctor_mask s)\<rparr>)"
| enter_cpu: "ctor_todo s = Enter_cpu # as \<Longrightarrow> c \<in> ctor_mask s \<Longrightarrow>
    affinity_step K s (s\<lparr>ctor_todo := as, cpu := insert c (cpu s)\<rparr>)"
| restrict_self: "ctor_todo s = Restrict_self # as \<Longrightarrow>
    affinity_step K s (s\<lparr>ctor_todo := as, ctor_mask := K (cpu s) (ctor_mask s)\<rparr>)"
| thread_restricts: "thread_mask s = Some m \<Longrightarrow> \<not> thread_restricted s \<Longrightarrow>
    affinity_step K s (s\<lparr>thread_mask := Some (K (cpu s) m), thread_restricted := True\<rparr>)"

text \<open>\<open>garbage\<close> is what the uninitialised member happens to hold.\<close>

definition affinity_init :: "ctor_action list \<Rightarrow> nat set \<Rightarrow> nat set \<Rightarrow> affinity" where
  "affinity_init todo garbage inherited = \<lparr>ctor_todo = todo, cpu = garbage, ctor_mask = inherited,
     thread_mask = None, thread_restricted = False\<rparr>"

definition single_cpu :: "affinity \<Rightarrow> bool" where
  "single_cpu s \<longleftrightarrow> (\<exists>c. ctor_mask s = {c} \<and> thread_mask s = Some {c})"

text \<open>Whatever the interleaving, both threads end up on one and the same CPU.\<close>

definition restricts :: "(nat set \<Rightarrow> nat set \<Rightarrow> nat set) \<Rightarrow> ctor_action list \<Rightarrow> nat set \<Rightarrow> nat set \<Rightarrow> bool" where
  "restricts K todo garbage inherited \<longleftrightarrow> (\<forall>s. (affinity_step K)\<^sup>*\<^sup>* (affinity_init todo garbage inherited) s \<longrightarrow>
     ctor_todo s = [] \<longrightarrow> thread_restricted s \<longrightarrow> single_cpu s)"

text \<open>
  What the kernel documents: the new mask is the CPUs asked for that exist; a set with none of
  them is refused.
\<close>

definition setaffinity :: "(nat set \<Rightarrow> nat set \<Rightarrow> nat set) \<Rightarrow> nat set \<Rightarrow> bool" where
  "setaffinity K online \<longleftrightarrow> (\<forall>req old. K req old = (if req \<inter> online = {} then old else req \<inter> online))"

subsection \<open>All runs\<close>

text \<open>When every mask that can be set is one CPU, every run stays on it.\<close>

definition on_cpu :: "nat set \<Rightarrow> nat \<Rightarrow> affinity \<Rightarrow> bool" where
  "on_cpu online c s \<longleftrightarrow> cpu s \<inter> online \<subseteq> {c} \<and> ctor_mask s = {c} \<and> thread_mask s \<in> {None, Some {c}}
     \<and> (thread_restricted s \<longrightarrow> thread_mask s \<noteq> None)"

lemma on_cpu_step:
  assumes "setaffinity K online" and "c \<in> online" and "on_cpu online c s" and "affinity_step K s t"
  shows "on_cpu online c t"
proof -
  have K: "req \<inter> online \<subseteq> {c} \<Longrightarrow> K req {c} = {c}" for req
    using assms(1,2) by (auto simp: setaffinity_def)
  from assms(4,3) show ?thesis by cases (auto simp: on_cpu_def K)
qed

interpretation affinity_system: stepped_invariant "affinity_step K"
  "\<lambda>s. setaffinity K online \<and> c \<in> online \<and> on_cpu online c s" for K online c
  by unfold_locales (metis on_cpu_step)

lemma restricted_before:
  assumes "setaffinity K online" and "c \<in> online" and "garbage \<inter> online \<subseteq> {c}"
  shows "restricts K todo garbage {c}"
  unfolding restricts_def
proof (intro allI impI)
  fix s
  assume "(affinity_step K)\<^sup>*\<^sup>* (affinity_init todo garbage {c}) s" and "thread_restricted s"
  with affinity_system.run_keeps [OF this(1), of online c] assms show "single_cpu s"
    by (auto simp: on_cpu_def single_cpu_def affinity_init_def)
qed

text \<open>The run in which the polling thread gets to its call first.\<close>

lemma early_thread_run:
  assumes "c \<in> inherited"
  shows "(affinity_step K)\<^sup>*\<^sup>* (affinity_init ctor_actions garbage inherited)
    \<lparr>ctor_todo = [], cpu = insert c garbage, ctor_mask = K (insert c garbage) inherited,
      thread_mask = Some (K garbage inherited), thread_restricted = True\<rparr>"
proof -
  define s0 where "s0 = affinity_init ctor_actions garbage inherited"
  define s1 where "s1 = s0\<lparr>ctor_todo := [Enter_cpu, Restrict_self], thread_mask := Some inherited\<rparr>"
  define s2 where "s2 = s1\<lparr>thread_mask := Some (K garbage inherited), thread_restricted := True\<rparr>"
  define s3 where "s3 = s2\<lparr>ctor_todo := [Restrict_self], cpu := insert c garbage\<rparr>"
  define s4 where "s4 = s3\<lparr>ctor_todo := [], ctor_mask := K (insert c garbage) inherited\<rparr>"
  note d = s0_def s1_def s2_def s3_def s4_def affinity_init_def ctor_actions_def
  have 1: "affinity_step K s0 s1" using affinity_step.start_thread [of s0 _ K] by (simp add: d)
  have 2: "affinity_step K s1 s2" using affinity_step.thread_restricts [of s1 inherited K] by (simp add: d)
  have 3: "affinity_step K s2 s3" using affinity_step.enter_cpu [of s2 _ c K] assms by (simp add: d)
  have 4: "affinity_step K s3 s4" using affinity_step.restrict_self [of s3 _ K] by (simp add: d)
  from run_step [OF run_step [OF run_step [OF r_into_rtranclp [of "affinity_step K", OF 1] 2] 3] 4]
  have "(affinity_step K)\<^sup>*\<^sup>* s0 s4" .
  then show ?thesis by (simp add: d)
qed

lemma restricts_iff:
  assumes "setaffinity K online" and "inherited \<noteq> {}" and "inherited \<subseteq> online"
  shows "restricts K ctor_actions garbage inherited \<longleftrightarrow> (\<exists>c. inherited = {c} \<and> garbage \<inter> online \<subseteq> {c})"
proof
  assume r: "restricts K ctor_actions garbage inherited"
  have both: "K garbage inherited = {c} \<and> garbage \<inter> online \<subseteq> {c}" if c: "c \<in> inherited" for c
  proof -
    from r early_thread_run [OF c, of K garbage] have
      "\<exists>d. K (insert c garbage) inherited = {d} \<and> K garbage inherited = {d}"
      by (fastforce simp: restricts_def single_cpu_def)
    moreover have "K (insert c garbage) inherited = insert c (garbage \<inter> online)"
      using assms(1,3) c by (auto simp: setaffinity_def)
    ultimately show ?thesis by auto
  qed
  from assms(2) obtain c where c: "c \<in> inherited" by blast
  with both have "inherited = {c}" by (metis is_singletonI' is_singleton_def singleton_iff singleton_inject empty_iff)
  with both [OF c] show "\<exists>c. inherited = {c} \<and> garbage \<inter> online \<subseteq> {c}" by blast
next
  assume "\<exists>c. inherited = {c} \<and> garbage \<inter> online \<subseteq> {c}"
  with assms show "restricts K ctor_actions garbage inherited" by (auto intro: restricted_before)
qed

text \<open>The other order: the set cleared and the body's work done before the thread is started.\<close>

definition restrict_first :: "ctor_action list" where
  "restrict_first = [Enter_cpu, Restrict_self, Start_thread]"

definition restricted_first :: "nat set \<Rightarrow> affinity \<Rightarrow> bool" where
  "restricted_first inherited s \<longleftrightarrow>
     s = affinity_init restrict_first {} inherited
     \<or> (\<exists>c \<in> inherited. cpu s = {c} \<and>
          (ctor_todo s = [Restrict_self, Start_thread] \<and> ctor_mask s = inherited \<and> thread_mask s = None
           \<or> ctor_todo s = [Start_thread] \<and> ctor_mask s = {c} \<and> thread_mask s = None
           \<or> ctor_todo s = [] \<and> ctor_mask s = {c} \<and> thread_mask s = Some {c}))"

lemma restricted_first_step:
  assumes "setaffinity K online" and "inherited \<subseteq> online"
    and "restricted_first inherited s" and "affinity_step K s t"
  shows "restricted_first inherited t"
proof -
  have K: "c \<in> inherited \<Longrightarrow> K {c} old = {c}" for c old
    using assms(1,2) by (auto simp: setaffinity_def)
  from assms(4,3) show ?thesis
    by cases (auto simp: restricted_first_def restrict_first_def affinity_init_def K)
qed

interpretation restrict_first_system: stepped_invariant "affinity_step K"
  "\<lambda>s. setaffinity K online \<and> inherited \<subseteq> online \<and> restricted_first inherited s" for K online inherited
  by unfold_locales (metis restricted_first_step)

lemma restrict_first_restricts:
  assumes "setaffinity K online" and "inherited \<subseteq> online"
  shows "restricts K restrict_first {} inherited"
  unfolding restricts_def
proof (intro allI impI)
  fix s
  assume run: "(affinity_step K)\<^sup>*\<^sup>* (affinity_init restrict_first {} inherited) s" and "ctor_todo s = []"
  with restrict_first_system.run_keeps [OF run, of online inherited] assms show "single_cpu s"
    by (auto simp: restricted_first_def single_cpu_def affinity_init_def restrict_first_def)
qed

subsection \<open>Property\<close>

text \<open>
  C29: the affinity set up by the constructor guarantees nothing that did not hold before. Both
  threads end up on one CPU in every run exactly when the process was restricted to that CPU
  already and the uninitialised set names no other: otherwise the polling thread may read the set
  before the constructor has entered its CPU. With the set cleared and the thread started last they
  always do.
\<close>

theorem affinity_not_guaranteed:
  assumes "setaffinity K online" and "inherited \<noteq> {}" and "inherited \<subseteq> online"
  shows "restricts K ctor_actions garbage inherited = (\<exists>c. inherited = {c} \<and> garbage \<inter> online \<subseteq> {c})
    \<and> restricts K [Enter_cpu, Restrict_self, Start_thread] {} inherited"
  using restricts_iff [OF assms] restrict_first_restricts [OF assms(1,3)] by (simp add: restrict_first_def)

theorem affinity_not_guaranteed_witness:
  "\<not> restricts (\<lambda>req old. if req \<inter> {0, 1} = {} then old else req \<inter> {0, 1}) ctor_actions {} {0, 1}
   \<and> restricts (\<lambda>req old. if req \<inter> {0, 1} = {} then old else req \<inter> {0, 1}) ctor_actions {} {0}"
proof -
  let ?K = "\<lambda>req old. if req \<inter> {0, 1} = {} then old else req \<inter> {0, 1 :: nat}"
  have K: "setaffinity ?K {0, 1}" by (simp add: setaffinity_def)
  from affinity_not_guaranteed [OF K, of "{0, 1}" "{}"] affinity_not_guaranteed [OF K, of "{0}" "{}"]
  show ?thesis by (auto simp: doubleton_eq_iff)
qed

end
