(* ===== verification/Ring_Buffer.thy ===== *)
theory Ring_Buffer
  imports Notification_Poller
begin

text \<open>
  \<^verbatim>\<open>RingBuffer\<close> of \<^verbatim>\<open>include/nhtl-extoll/buffer.h\<close> and \<^verbatim>\<open>src/nhtl-extoll/buffer.cpp\<close>. The
  memory behind \<^verbatim>\<open>m_buffer\<close> is a function from quad-word positions, read only within the
  allocation: a read outside is the failure \<open>Undefined\<close>. The poller is held by reference in the
  source, so every operation that uses it takes it and gives it back.

  The lemmas show what one turn of the receive loop does, what the whole loop returns (a slice
  of the ring, starting at the read index and wrapping at the size), and how many words the
  notifications it posts acknowledge.
\<close>

unbundle bit_operations_syntax

subsection \<open>State\<close>

definition rb_page_size_bt :: u64 where
  "rb_page_size_bt = 4096"

definition num_words_to_notify :: u64 where
  "num_words_to_notify = 62 * 512"

definition hicann_identifier :: u64 where
  "hicann_identifier = 0x2a1b"

definition trace_identifier :: u64 where
  "trace_identifier = 0x0ca5"

record RingBuffer =
  size_bt :: u64
  size_qw :: u64
  rb_port :: u64
  rb_handle :: u64
  m_address :: u64
  m_buffer :: "u64 \<Rightarrow> u64"
  m_region :: u64
  m_read_index :: u64
  m_readable_words :: u64
  m_read_words :: u64

text \<open>
  \<open>contents\<close> is what the fresh allocation happens to hold. The result of \<^verbatim>\<open>sysconf\<close> is compared
  as an unsigned 64-bit number.
\<close>

definition RingBuffer_new ::
  "'e ext \<Rightarrow> u64 \<Rightarrow> u64 \<Rightarrow> u64 \<Rightarrow> (u64 \<Rightarrow> u64) \<Rightarrow> ('e world, failure, RingBuffer) comp" where
  "RingBuffer_new X port handle npages contents =
     (let bytes = npages * rb_page_size_bt; words = bytes div 8 in
      andthen (call X sysconf_pagesize) (\<lambda>sz.
      if word_of_int (r_ret sz) \<noteq> rb_page_size_bt
      then fail (Throw (runtime_error ''System page size not 4096!''))
      else
      andthen (call X (aligned_alloc rb_page_size_bt bytes)) (\<lambda>addr.
      andthen (call X (rma2_register port (r_out addr) bytes)) (\<lambda>region.
      andthen (throw_on_error (\<lambda>_. FailedToRegisterRegion) (r_status region) ()) (\<lambda>_.
      ret \<lparr>size_bt = bytes, size_qw = words, rb_port = port, rb_handle = handle,
           m_address = r_out addr, m_buffer = contents, m_region = r_out region,
           m_read_index = 0, m_readable_words = 0, m_read_words = 0\<rparr>)))))"

definition region :: "RingBuffer \<Rightarrow> u64" where
  "region rb = m_region rb"

text \<open>\<^verbatim>\<open>operator[]\<close>: no check, so a position outside the allocation is undefined.\<close>

definition rb_at :: "RingBuffer \<Rightarrow> u64 \<Rightarrow> failure + u64" where
  "rb_at rb position = (if position < size_qw rb then Inr (m_buffer rb position) else Inl Undefined)"

text \<open>The status of \<^verbatim>\<open>rma2_get_nla\<close> is ignored.\<close>

definition rb_nla :: "'e ext \<Rightarrow> RingBuffer \<Rightarrow> u64 \<Rightarrow> ('e world, failure, u64) comp" where
  "rb_nla X rb offset = andthen (call X (rma2_get_nla (m_region rb) offset)) (\<lambda>nla. ret (r_out nla))"

definition reset :: "RingBuffer \<Rightarrow> RingBuffer" where
  "reset rb = rb\<lparr>m_read_index := 0, m_readable_words := 0, m_read_words := 0\<rparr>"

text \<open>The defaulted move constructor copies the members: the new object and what is left of the old one.\<close>

definition RingBuffer_move :: "RingBuffer \<Rightarrow> RingBuffer \<times> RingBuffer" where
  "RingBuffer_move rb = (rb, rb)"

subsection \<open>Polling, notifying and receiving\<close>

definition poll ::
  "batch list \<Rightarrow> RingBuffer \<Rightarrow> NotificationPoller
   \<Rightarrow> failure + bool \<times> RingBuffer \<times> NotificationPoller \<times> batch list" where
  "poll bs rb p =
     (case consume_packets bs p of
        Inl f \<Rightarrow> Inl f
      | Inr (packets, p', rest) \<Rightarrow>
          Inr (packets \<noteq> 0, rb\<lparr>m_readable_words := m_readable_words rb + packets\<rparr>, p', rest))"

definition notify_payload :: "u64 \<Rightarrow> u64" where
  "notify_payload read_words = push_bit 48 trace_identifier OR read_words"

definition notify_call :: "RingBuffer \<Rightarrow> ext_call" where
  "notify_call rb =
     rma2_post_notification (rb_port rb) (rb_handle rb) 0 (notify_payload (m_read_words rb))
       RMA2_NO_NOTIFICATION"

definition notify :: "'e ext \<Rightarrow> RingBuffer \<Rightarrow> 'e world \<Rightarrow> RingBuffer \<times> 'e world" where
  "notify X rb w = (rb\<lparr>m_read_words := 0\<rparr>, after X (notify_call rb) w)"

text \<open>
  One turn of the loop in \<^verbatim>\<open>receive\<close>; the words received so far are in the middle.
\<close>

type_synonym 'e receiving = "RingBuffer \<times> u64 list \<times> 'e world"

definition receive_word :: "'e ext \<Rightarrow> 'e receiving \<Rightarrow> failure + 'e receiving" where
  "receive_word X = (\<lambda>(rb, words, w).
     case rb_at rb (m_read_index rb) of
       Inl f \<Rightarrow> Inl f
     | Inr x \<Rightarrow>
         let rb1 = rb\<lparr>m_read_index := (m_read_index rb + 1) mod size_qw rb,
                      m_read_words := m_read_words rb + 1,
                      m_readable_words := m_readable_words rb - 1\<rparr>
         in if m_read_words rb1 > num_words_to_notify
            then (case notify X rb1 w of (rb2, w') \<Rightarrow> Inr (rb2, words @ [x], w'))
            else Inr (rb1, words @ [x], w))"

lemma receive_word_readable:
  "receive_word X (rb, words, w) = Inr (rb', words', w') \<Longrightarrow>
   m_readable_words rb' = m_readable_words rb - 1"
  by (auto simp: receive_word_def notify_def Let_def split: sum.splits if_splits)

function receive_loop :: "'e ext \<Rightarrow> 'e receiving \<Rightarrow> failure + 'e receiving" where
  "receive_loop X s =
     (if m_readable_words (fst s) > 0
      then (case receive_word X s of Inl f \<Rightarrow> Inl f | Inr s' \<Rightarrow> receive_loop X s')
      else Inr s)"
  by pat_completeness auto
termination
proof (relation "measure (\<lambda>(X, s). unat (m_readable_words (fst s)))")
  fix X :: "'e ext" and s s' :: "'e receiving"
  assume pos: "m_readable_words (fst s) > 0" and word: "receive_word X s = Inr s'"
  then have "m_readable_words (fst s') = m_readable_words (fst s) - 1"
    using receive_word_readable [of X "fst s" "fst (snd s)" "snd (snd s)"]
    by (cases s; cases s') auto
  with pos show "((X, s'), (X, s)) \<in> measure (\<lambda>(X, s). unat (m_readable_words (fst s)))"
    by (simp add: unat_u64_pred word_less_nat_alt)
qed simp

declare receive_loop.simps [simp del]

text \<open>
  \<^verbatim>\<open>words.reserve(m_readable_words)\<close> throws when the count exceeds \<^verbatim>\<open>max_size()\<close> of a vector of
  quad words, 2^60 - 1. That the allocation itself fails is not modelled.
\<close>

definition vector_max_size :: u64 where
  "vector_max_size = 0xfffffffffffffff"

definition too_many_words :: failure where
  "too_many_words = Throw (length_error ''vector::reserve'')"

definition receive ::
  "'e ext \<Rightarrow> batch list \<Rightarrow> RingBuffer \<Rightarrow> NotificationPoller \<Rightarrow> 'e world
   \<Rightarrow> failure + u64 list \<times> RingBuffer \<times> NotificationPoller \<times> batch list \<times> 'e world" where
  "receive X bs rb p w =
     (case poll bs rb p of
        Inl f \<Rightarrow> Inl f
      | Inr (_, rb1, p', rest) \<Rightarrow>
          if m_readable_words rb1 > vector_max_size then Inl too_many_words else
          (case receive_loop X (rb1, [], w) of
             Inl f \<Rightarrow> Inl f
           | Inr (rb2, words, w') \<Rightarrow>
               (case notify X rb2 w' of (rb3, w'') \<Rightarrow> Inr (words, rb3, p', rest, w''))))"

subsection \<open>Destruction\<close>

text \<open>
  \<^verbatim>\<open>while (poll());\<close> goes on as long as packets keep coming, so it may not end. \<open>sched i\<close> is what
  the polling thread dispatches during the \<open>i\<close>-th wait; what one wait leaves goes to the next.
\<close>

partial_function (option) drain_polls ::
  "(nat \<Rightarrow> batch list) \<Rightarrow> nat \<Rightarrow> batch list \<Rightarrow> RingBuffer \<Rightarrow> NotificationPoller
   \<Rightarrow> (failure + RingBuffer \<times> NotificationPoller) option" where
  "drain_polls sched i bs rb p =
     (case poll (bs @ sched i) rb p of
        Inl f \<Rightarrow> Some (Inl f)
      | Inr (again, rb', p', rest) \<Rightarrow>
          if again then drain_polls sched (Suc i) rest rb' p' else Some (Inr (rb', p')))"

definition RingBuffer_delete ::
  "'e ext \<Rightarrow> (nat \<Rightarrow> batch list) \<Rightarrow> RingBuffer \<Rightarrow> NotificationPoller \<Rightarrow> 'e world
   \<Rightarrow> (failure + NotificationPoller \<times> 'e world) option" where
  "RingBuffer_delete X sched rb p w =
     (case drain_polls sched 0 [] rb p of
        None \<Rightarrow> None
      | Some (Inl f) \<Rightarrow> Some (Inl f)
      | Some (Inr (rb1, p')) \<Rightarrow>
          let rb2 = rb1\<lparr>m_read_index := m_read_index rb1 + m_readable_words rb1, m_readable_words := 0\<rparr>;
              w1 = snd (notify X rb2 w);
              w2 = after X (rma2_unregister (rb_port rb2) (m_region rb2)) w1;
              w3 = after X (free_mem (m_address rb2)) w2
          in Some (Inr (p', w3)))"

subsection \<open>One turn of the loop\<close>

text \<open>
  The invariant of the class: the read index lies in the ring, and fewer words than a full
  notification are unacknowledged.
\<close>

definition ring_wf :: "RingBuffer \<Rightarrow> bool" where
  "ring_wf rb \<longleftrightarrow> m_read_index rb < size_qw rb \<and> m_read_words rb \<le> num_words_to_notify"

text \<open>The \<open>n\<close> words from the read index on, wrapping at the size of the ring.\<close>

definition ring_slice :: "RingBuffer \<Rightarrow> nat \<Rightarrow> u64 list" where
  "ring_slice rb n =
     map (\<lambda>i. m_buffer rb (of_nat ((unat (m_read_index rb) + i) mod unat (size_qw rb)))) [0..<n]"

text \<open>
  The words the FPGA takes as read in the trace ring when it sees the posted notifications: the low
  48 bits of the payload, and only of notifications of class 0 whose upper 16 bits are the identifier
  of that ring. The identifier is the FPGA's, so it is written out and not taken from the code.
\<close>

definition fpga_trace_identifier :: u64 where
  "fpga_trace_identifier = 0x0ca5"

fun acked_words :: "ext_call list \<Rightarrow> nat" where
  "acked_words [] = 0"
| "acked_words (rma2_post_notification port handle cls payload spec # cs) =
     (if cls = 0 \<and> drop_bit 48 payload = fpga_trace_identifier then unat (take_bit 48 payload) else 0)
     + acked_words cs"
| "acked_words (_ # cs) = acked_words cs"

lemma acked_words_append [simp]: "acked_words (a @ b) = acked_words a + acked_words b"
  by (induction a rule: acked_words.induct) simp_all

lemma notify_payload_fields:
  assumes "r < 0x1000000000000"
  shows "take_bit 48 (notify_payload r) = r" and "drop_bit 48 (notify_payload r) = trace_identifier"
proof -
  have "unat (take_bit 48 r) = unat r"
    using assms by (simp add: unsigned_take_bit_eq take_bit_nat_eq_self_iff word_less_nat_alt)
  then have "r = take_bit 48 r"
    by (simp add: word_unat_eq_iff)
  then have high: "bit r n \<Longrightarrow> n < 48" for n
    by (metis bit_take_bit_iff)
  have low: "bit trace_identifier n \<Longrightarrow> n < 16" for n
  proof -
    have "trace_identifier = take_bit 16 trace_identifier"
      by (simp add: trace_identifier_def)
    then show "bit trace_identifier n \<Longrightarrow> n < 16" by (metis bit_take_bit_iff)
  qed
  show "take_bit 48 (notify_payload r) = r"
    by (rule bit_eqI) (auto simp: notify_payload_def bit_simps dest: high)
  show "drop_bit 48 (notify_payload r) = trace_identifier"
    by (rule bit_eqI) (auto simp: notify_payload_def bit_simps dest: high low)
qed

lemma acked_notify:
  "m_read_words rb \<le> num_words_to_notify + 1 \<Longrightarrow> acked_words [notify_call rb] = unat (m_read_words rb)"
proof -
  assume "m_read_words rb \<le> num_words_to_notify + 1"
  also have "\<dots> < (0x1000000000000::u64)"
    by (simp add: num_words_to_notify_def)
  finally show ?thesis
    by (simp add: notify_call_def notify_payload_fields) (simp add: trace_identifier_def fpga_trace_identifier_def)
qed

text \<open>What a turn does to the object: advance, and notify once the limit is passed.\<close>

definition advance :: "RingBuffer \<Rightarrow> RingBuffer" where
  "advance rb = rb\<lparr>m_read_index := (m_read_index rb + 1) mod size_qw rb,
     m_read_words := m_read_words rb + 1, m_readable_words := m_readable_words rb - 1\<rparr>"

lemma advance_simps [simp]:
  "m_readable_words (advance rb) = m_readable_words rb - 1" "size_qw (advance rb) = size_qw rb"
  "m_read_words (advance rb) = m_read_words rb + 1" "m_buffer (advance rb) = m_buffer rb"
  "m_read_index (advance rb) = (m_read_index rb + 1) mod size_qw rb"
  by (simp_all add: advance_def)

lemma advance_index:
  assumes "m_read_index rb < size_qw rb"
  shows "unat (m_read_index (advance rb)) = (unat (m_read_index rb) + 1) mod unat (size_qw rb)"
    and "m_read_index (advance rb) < size_qw rb"
proof -
  from assms have "unat (m_read_index rb) < 0xffffffffffffffff"
    using unat_u64_bound [of "size_qw rb"] by (simp add: word_less_nat_alt)
  then have "unat (m_read_index rb + 1) = unat (m_read_index rb) + 1"
    by (simp add: unat_u64_Suc)
  then show eq: "unat (m_read_index (advance rb)) = (unat (m_read_index rb) + 1) mod unat (size_qw rb)"
    by (simp add: unat_mod_distrib)
  from assms have "0 < unat (size_qw rb)"
    by (simp add: word_less_nat_alt)
  with eq show "m_read_index (advance rb) < size_qw rb"
    by (simp add: word_less_nat_alt)
qed

lemma receive_word_eq:
  assumes "ring_wf rb"
  shows "receive_word X (rb, words, w) =
    (if m_read_words rb = num_words_to_notify
     then Inr ((advance rb)\<lparr>m_read_words := 0\<rparr>, words @ [m_buffer rb (m_read_index rb)],
       after X (notify_call (advance rb)) w)
     else Inr (advance rb, words @ [m_buffer rb (m_read_index rb)], w))"
proof -
  have "m_read_words rb + 1 > num_words_to_notify \<longleftrightarrow> m_read_words rb = num_words_to_notify"
    using assms
    by (auto simp: ring_wf_def num_words_to_notify_def word_less_nat_alt word_le_nat_alt
        unat_u64_Suc word_unat_eq_iff)
  with assms show ?thesis
    by (simp add: receive_word_def rb_at_def ring_wf_def notify_def advance_def Let_def)
qed

lemma ring_wf_advance:
  assumes "ring_wf rb"
  shows "ring_wf ((advance rb)\<lparr>m_read_words := 0\<rparr>)"
    and "m_read_words rb \<noteq> num_words_to_notify \<Longrightarrow> ring_wf (advance rb)"
proof -
  have idx: "m_read_index (advance rb) < size_qw rb"
    using assms advance_index(2) by (simp add: ring_wf_def)
  then show "ring_wf ((advance rb)\<lparr>m_read_words := 0\<rparr>)"
    by (simp add: ring_wf_def)
  assume "m_read_words rb \<noteq> num_words_to_notify"
  with assms have "m_read_words rb + 1 \<le> num_words_to_notify"
    by (auto simp: ring_wf_def num_words_to_notify_def word_less_nat_alt word_le_nat_alt
        unat_u64_Suc word_unat_eq_iff)
  with idx show "ring_wf (advance rb)"
    by (simp add: ring_wf_def)
qed

text \<open>The result of one turn, notified or not: what is acknowledged and what is not add up.\<close>

lemma receive_word_result:
  assumes wf: "ring_wf rb" and word: "receive_word X (rb, words, w) = Inr (rb', words', w')"
  shows "\<exists>k. rb' = (advance rb)\<lparr>m_read_words := k\<rparr> \<and> words' = words @ [m_buffer rb (m_read_index rb)]
    \<and> acked_words (asked w w') + unat k = unat (m_read_words rb) + 1 \<and> ring_wf rb'"
proof (cases "m_read_words rb = num_words_to_notify")
  case True
  have "m_read_words (advance rb) \<le> num_words_to_notify + 1" using True by simp
  from acked_notify [OF this] ring_wf_advance(1) [OF wf] True word show ?thesis
    by (auto simp: receive_word_eq [OF wf] num_words_to_notify_def intro!: exI [of _ 0])
next
  case False
  have "m_read_words rb \<le> num_words_to_notify" using wf by (simp add: ring_wf_def)
  then have "unat (m_read_words rb + 1) = unat (m_read_words rb) + 1"
    by (simp add: num_words_to_notify_def word_le_nat_alt unat_u64_Suc)
  with ring_wf_advance(2) [OF wf False] False word show ?thesis
    by (auto simp: receive_word_eq [OF wf] advance_def intro!: exI [of _ "m_read_words rb + 1"])
qed

lemma ring_slice_Suc:
  assumes "m_read_index rb < size_qw rb" and "m_read_index rb' = m_read_index (advance rb)"
    and "m_buffer rb' = m_buffer rb" and "size_qw rb' = size_qw rb"
  shows "ring_slice rb (Suc n) = m_buffer rb (m_read_index rb) # ring_slice rb' n"
proof -
  have "unat (m_read_index rb) mod unat (size_qw rb) = unat (m_read_index rb)"
    using assms(1) by (simp add: word_less_nat_alt)
  moreover have "(unat (m_read_index rb') + i) mod unat (size_qw rb) = (unat (m_read_index rb) + Suc i) mod unat (size_qw rb)" for i
    unfolding assms(2) advance_index(1) [OF assms(1)] by (simp add: mod_add_left_eq)
  ultimately show ?thesis
    unfolding ring_slice_def upt_Suc_conv by (simp add: assms(3,4) o_def)
qed

subsection \<open>The whole loop\<close>

lemma ring_slice_0 [simp]: "ring_slice rb 0 = []"
  by (simp add: ring_slice_def)

lemma length_ring_slice [simp]: "length (ring_slice rb n) = n"
  by (simp add: ring_slice_def)

text \<open>A notification this ring buffer posts, for at most one word more than the limit.\<close>

definition own_notification :: "RingBuffer \<Rightarrow> ext_call \<Rightarrow> bool" where
  "own_notification rb c \<longleftrightarrow>
     (\<exists>r. r \<le> num_words_to_notify + 1
        \<and> c = rma2_post_notification (rb_port rb) (rb_handle rb) 0 (notify_payload r) RMA2_NO_NOTIFICATION)"

lemma own_notification_notify:
  "m_read_words rb \<le> num_words_to_notify + 1 \<Longrightarrow> rb_port rb' = rb_port rb \<Longrightarrow>
   rb_handle rb' = rb_handle rb \<Longrightarrow> own_notification rb' (notify_call rb)"
  by (auto simp: own_notification_def notify_call_def)

lemma receive_loop_done:
  "m_readable_words rb = 0 \<Longrightarrow> receive_loop X (rb, words, w) = Inr (rb, words, w)"
  by (subst receive_loop.simps) simp

lemma receive_loop_step:
  "m_readable_words rb > 0 \<Longrightarrow> receive_word X (rb, words, w) = Inr s' \<Longrightarrow>
   receive_loop X (rb, words, w) = receive_loop X s'"
  by (subst receive_loop.simps) simp

definition loop_result :: "'e ext \<Rightarrow> RingBuffer \<Rightarrow> u64 list \<Rightarrow> 'e world \<Rightarrow> nat \<Rightarrow> RingBuffer \<Rightarrow> 'e world \<Rightarrow> bool" where
  "loop_result X rb words w n rb' w' \<longleftrightarrow>
     receive_loop X (rb, words, w) = Inr (rb', words @ ring_slice rb n, w')
     \<and> ring_wf rb' \<and> extends w w'
     \<and> rb' = rb\<lparr>m_read_index := of_nat ((unat (m_read_index rb) + n) mod unat (size_qw rb)),
               m_readable_words := 0, m_read_words := m_read_words rb'\<rparr>
     \<and> acked_words (asked w w') + unat (m_read_words rb') = unat (m_read_words rb) + n
     \<and> list_all (own_notification rb) (asked w w')"

text \<open>One turn followed by the rest of the loop.\<close>

lemma loop_result_Suc:
  assumes wf: "ring_wf rb" and pos: "m_readable_words rb > 0"
    and first: "receive_word X (rb, words, w) =
      Inr ((advance rb)\<lparr>m_read_words := k\<rparr>, words @ [m_buffer rb (m_read_index rb)], v)"
    and extw: "extends w v"
    and count: "acked_words (asked w v) + unat k = unat (m_read_words rb) + 1"
    and own: "list_all (own_notification rb) (asked w v)"
    and rest: "loop_result X ((advance rb)\<lparr>m_read_words := k\<rparr>)
      (words @ [m_buffer rb (m_read_index rb)]) v n rb' w'"
  shows "loop_result X rb words w (Suc n) rb' w'"
proof -
  let ?rb1 = "(advance rb)\<lparr>m_read_words := k\<rparr>"
  from wf have idx: "m_read_index rb < size_qw rb" by (simp add: ring_wf_def)
  have slice: "ring_slice rb (Suc n) = m_buffer rb (m_read_index rb) # ring_slice ?rb1 n"
    using idx by (intro ring_slice_Suc) simp_all
  have pos_eq: "(unat (m_read_index ?rb1) + n) mod unat (size_qw rb)
      = (unat (m_read_index rb) + Suc n) mod unat (size_qw rb)"
    using advance_index(1) [OF idx] by (simp add: mod_add_left_eq)
  have own_eq: "own_notification ?rb1 = own_notification rb"
    by (rule ext) (simp add: own_notification_def advance_def)
  from rest have ext1: "extends v w'" by (simp add: loop_result_def)
  note as = asked_trans [OF extw ext1]
  from rest have "rb' = ?rb1\<lparr>m_read_index := of_nat ((unat (m_read_index rb) + Suc n) mod unat (size_qw rb)),
               m_readable_words := 0, m_read_words := m_read_words rb'\<rparr>"
    unfolding loop_result_def using pos_eq by simp
  then have rb': "rb' = rb\<lparr>m_read_index := of_nat ((unat (m_read_index rb) + Suc n) mod unat (size_qw rb)),
               m_readable_words := 0, m_read_words := m_read_words rb'\<rparr>"
    by (simp add: advance_def)
  show ?thesis
    unfolding loop_result_def receive_loop_step [OF pos first] slice as
    using rest count own rb' extends_trans [OF extw ext1] by (simp add: loop_result_def own_eq)
qed

text \<open>The turn that notifies and the turn that does not, each followed by the rest of the loop.\<close>

lemma loop_result_notifies:
  assumes "ring_wf rb" and "m_readable_words rb > 0" and "m_read_words rb = num_words_to_notify"
    and "loop_result X ((advance rb)\<lparr>m_read_words := 0\<rparr>) (words @ [m_buffer rb (m_read_index rb)])
      (after X (notify_call (advance rb)) w) n rb' w'"
  shows "loop_result X rb words w (Suc n) rb' w'"
proof -
  have k: "m_read_words (advance rb) \<le> num_words_to_notify + 1"
    using assms(3) by simp
  have "unat (m_read_words (advance rb)) = unat (m_read_words rb) + 1"
    using assms(3) by (simp add: num_words_to_notify_def)
  then show ?thesis
    using assms acked_notify [OF k] own_notification_notify [OF k, of rb]
    by (intro loop_result_Suc [where k = 0 and v = "after X (notify_call (advance rb)) w"])
      (simp_all add: receive_word_eq advance_def)
qed

lemma loop_result_silent:
  assumes "ring_wf rb" and "m_readable_words rb > 0" and "m_read_words rb \<noteq> num_words_to_notify"
    and "loop_result X (advance rb) (words @ [m_buffer rb (m_read_index rb)]) w n rb' w'"
  shows "loop_result X rb words w (Suc n) rb' w'"
proof -
  have same: "(advance rb)\<lparr>m_read_words := m_read_words rb + 1\<rparr> = advance rb" by (simp add: advance_def)
  have "m_read_words rb \<le> num_words_to_notify"
    using assms(1) by (simp add: ring_wf_def)
  then have "unat (m_read_words rb + 1) = unat (m_read_words rb) + 1"
    by (simp add: num_words_to_notify_def word_le_nat_alt unat_u64_Suc)
  then show ?thesis
    using assms by (intro loop_result_Suc [where k = "m_read_words rb + 1" and v = w])
      (simp_all add: receive_word_eq same)
qed

lemma receive_loop_spec:
  assumes "ring_wf rb" and "unat (m_readable_words rb) = n"
  shows "\<exists>rb' w'. loop_result X rb words w n rb' w'"
  using assms
proof (induction n arbitrary: rb words w)
  case 0
  then have z: "m_readable_words rb = 0" by (simp add: unat_eq_0)
  have "of_nat (unat (m_read_index rb) mod unat (size_qw rb)) = m_read_index rb"
    using "0.prems" by (simp add: ring_wf_def word_less_nat_alt)
  then have "loop_result X rb words w 0 rb w"
    using z "0.prems" by (simp add: loop_result_def receive_loop_done)
  then show ?case by blast
next
  case (Suc n)
  let ?words = "words @ [m_buffer rb (m_read_index rb)]"
  from Suc.prems have pos: "m_readable_words rb > 0"
    by (simp add: word_less_nat_alt)
  with Suc.prems have n: "unat (m_readable_words (advance rb)) = n"
    by (simp add: unat_u64_pred)
  note wf = ring_wf_advance [OF Suc.prems(1)]
  show ?case
  proof (cases "m_read_words rb = num_words_to_notify")
    case True
    from Suc.IH [of "(advance rb)\<lparr>m_read_words := 0\<rparr>" ?words "after X (notify_call (advance rb)) w"] wf(1) n
      loop_result_notifies [OF Suc.prems(1) pos True] show ?thesis by fastforce
  next
    case False
    from Suc.IH [of "advance rb" ?words w] wf(2) [OF False] n loop_result_silent [OF Suc.prems(1) pos False]
    show ?thesis by blast
  qed
qed

subsection \<open>Receiving\<close>

lemma poll_Inr:
  assumes "consume_packets bs p = Inr (packets, p', rest)"
  shows "poll bs rb p =
    Inr (packets \<noteq> 0, rb\<lparr>m_readable_words := m_readable_words rb + packets\<rparr>, p', rest)"
  using assms by (simp add: poll_def)

text \<open>All that one call of \<^verbatim>\<open>receive\<close> does, once the packets are counted.\<close>

lemma receive_spec:
  fixes X :: "'e ext"
  assumes wf: "ring_wf rb" and cp: "consume_packets bs p = Inr (packets, p', rest)"
    and n: "n = unat (m_readable_words rb + packets)" and fits: "m_readable_words rb + packets \<le> vector_max_size"
  shows "\<exists>rb' w'. receive X bs rb p w = Inr (ring_slice rb n, rb', p', rest, w')
    \<and> rb' = rb\<lparr>m_read_index := of_nat ((unat (m_read_index rb) + n) mod unat (size_qw rb)),
              m_readable_words := 0, m_read_words := 0\<rparr>
    \<and> ring_wf rb' \<and> extends w w'
    \<and> acked_words (asked w w') = unat (m_read_words rb) + n
    \<and> list_all (own_notification rb) (asked w w')"
proof -
  let ?rb1 = "rb\<lparr>m_readable_words := m_readable_words rb + packets\<rparr>"
  have "ring_wf ?rb1" using wf by (simp add: ring_wf_def)
  then obtain rb2 v where loop: "loop_result X ?rb1 [] w n rb2 v"
    using receive_loop_spec [of ?rb1 n X "[]" w] n by auto
  have slice: "ring_slice ?rb1 n = ring_slice rb n"
    by (simp add: ring_slice_def)
  have own: "own_notification ?rb1 = own_notification rb"
    by (rule HOL.ext) (simp add: own_notification_def)
  from loop have run: "receive_loop X (?rb1, [], w) = Inr (rb2, ring_slice rb n, v)"
    and extw: "extends w v" and wf2: "ring_wf rb2"
    and rb2: "rb2 = ?rb1\<lparr>m_read_index := of_nat ((unat (m_read_index rb) + n) mod unat (size_qw rb)),
               m_readable_words := 0, m_read_words := m_read_words rb2\<rparr>"
    and count: "acked_words (asked w v) + unat (m_read_words rb2) = unat (m_read_words rb) + n"
    and owns: "list_all (own_notification rb) (asked w v)"
    by (simp_all add: loop_result_def slice own)
  let ?w' = "after X (notify_call rb2) v" and ?rb' = "rb2\<lparr>m_read_words := 0\<rparr>"
  have k: "m_read_words rb2 \<le> num_words_to_notify + 1"
    using wf2 by (simp add: ring_wf_def num_words_to_notify_def word_le_nat_alt)
  have same: "rb_port rb2 = rb_port rb" "rb_handle rb2 = rb_handle rb"
    by (subst rb2, simp)+
  have "receive X bs rb p w = Inr (ring_slice rb n, ?rb', p', rest, ?w')"
    using fits by (simp add: receive_def poll_Inr [OF cp] run notify_def)
  moreover have "?rb' = rb\<lparr>m_read_index := of_nat ((unat (m_read_index rb) + n) mod unat (size_qw rb)),
              m_readable_words := 0, m_read_words := 0\<rparr>"
    by (subst rb2) simp
  moreover have "ring_wf ?rb'" using wf2 by (simp add: ring_wf_def)
  moreover have "asked w ?w' = asked w v @ [notify_call rb2]"
    using asked_trans [OF extw extends_after] by simp
  moreover have "extends w ?w'" using extw by (blast intro: extends_trans)
  ultimately show ?thesis
    using count owns acked_notify [OF k] own_notification_notify [OF k, of rb] same by auto
qed

text \<open>A call that returns found a count that fits.\<close>

lemma receive_Inr:
  assumes "receive X bs rb p w = Inr (words, rb', p', rest, w')"
  obtains packets where "consume_packets bs p = Inr (packets, p', rest)"
    "m_readable_words rb + packets \<le> vector_max_size"
  using assms by (auto simp: receive_def poll_def notify_def split: sum.splits if_splits)

lemma receive_throws:
  assumes "consume_packets bs p = Inr (packets, p', rest)" and "\<not> m_readable_words rb + packets \<le> vector_max_size"
  shows "receive X bs rb p w = Inl too_many_words"
  using assms(2) by (simp add: receive_def poll_Inr [OF assms(1)] not_le)

lemma ring_slice_append:
  assumes "rb' = rb\<lparr>m_read_index := of_nat ((unat (m_read_index rb) + a) mod unat (size_qw rb)),
              m_readable_words := r, m_read_words := k\<rparr>"
    and "0 < size_qw rb"
  shows "ring_slice rb (a + b) = ring_slice rb a @ ring_slice rb' b"
proof -
  have "(unat (m_read_index rb) + a) mod unat (size_qw rb) < unat (size_qw rb)"
    using assms(2) by (simp add: word_less_nat_alt)
  then have "(unat (m_read_index rb) + a) mod unat (size_qw rb) < 0x10000000000000000"
    using unat_u64_bound [of "size_qw rb"] by linarith
  then have idx: "unat (m_read_index rb') = (unat (m_read_index rb) + a) mod unat (size_qw rb)"
    by (simp add: assms(1) unat_of_nat)
  have "map f [a..<a + b] = map (\<lambda>i. f (a + i)) [0..<b]" for f :: "nat \<Rightarrow> u64"
    by (rule nth_equalityI) simp_all
  then show ?thesis
    unfolding ring_slice_def idx
    by (simp add: upt_add_eq_append [of 0] mod_add_left_eq add.assoc assms(1))
qed

subsection \<open>Destruction\<close>

text \<open>Draining only counts: it changes nothing of the object but the readable words.\<close>

definition same_but_readable :: "RingBuffer \<Rightarrow> RingBuffer \<Rightarrow> bool" where
  "same_but_readable rb rb' \<longleftrightarrow> rb' = rb\<lparr>m_readable_words := m_readable_words rb'\<rparr>"

lemma poll_same: "poll bs rb p = Inr (b, rb', p', rest) \<Longrightarrow> same_but_readable rb rb'"
  by (auto simp: poll_def same_but_readable_def split: sum.splits)

lemma same_but_readable_trans:
  "same_but_readable a b \<Longrightarrow> same_but_readable b c \<Longrightarrow> same_but_readable a c"
  by (auto simp: same_but_readable_def) (metis RingBuffer.select_convs RingBuffer.surjective RingBuffer.update_convs(9))

lemma drain_polls_same:
  assumes "drain_polls sched i bs rb p = Some r" and "r = Inr (rb', p')"
  shows "same_but_readable rb rb'"
proof -
  have "r = Inr (rb', p') \<longrightarrow> same_but_readable rb rb'"
  proof (rule drain_polls.raw_induct [OF _ assms(1),
        where P = "\<lambda>sched i bs rb p r. r = Inr (rb', p') \<longrightarrow> same_but_readable rb rb'"])
    fix D :: "(nat \<Rightarrow> batch list) \<Rightarrow> nat \<Rightarrow> batch list \<Rightarrow> RingBuffer \<Rightarrow> NotificationPoller
      \<Rightarrow> (failure + RingBuffer \<times> NotificationPoller) option"
      and sched i bs rb p r
    assume IH: "\<And>sched i bs rb p r. D sched i bs rb p = Some r \<Longrightarrow>
        r = Inr (rb', p') \<longrightarrow> same_but_readable rb rb'"
      and eq: "(case poll (bs @ sched i) rb p of
        Inl f \<Rightarrow> Some (Inl f)
      | Inr (again, rb', p', rest) \<Rightarrow>
          if again then D sched (Suc i) rest rb' p' else Some (Inr (rb', p'))) = Some r"
    show "r = Inr (rb', p') \<longrightarrow> same_but_readable rb rb'"
      using eq IH by (fastforce split: sum.splits prod.splits if_splits
          dest: poll_same intro: same_but_readable_trans)
  qed
  with assms(2) show ?thesis by simp
qed

text \<open>
  Once the counter is empty, every poll that finds packets uses up a batch, so the loop ends when
  the batches do.
\<close>

lemma drain_polls_returns:
  assumes quiet: "\<And>j. k \<le> j \<Longrightarrow> sched j = []"
  shows "m_packets p = 0 \<Longrightarrow> length bs + length (concat (map sched [i..<k])) = n \<Longrightarrow>
    \<exists>r. drain_polls sched i bs rb p = Some r"
proof (induction n arbitrary: i bs rb p rule: less_induct)
  case (less n)
  show ?case
  proof (cases "poll (bs @ sched i) rb p")
    case (Inl f)
    then show ?thesis by (subst drain_polls.simps) simp
  next
    case (Inr x)
    then obtain packets q rest where cp: "consume_packets (bs @ sched i) p = Inr (packets, q, rest)"
      by (auto simp: poll_def split: sum.splits)
    note po = poll_Inr [OF cp, of rb]
    show ?thesis
    proof (cases "packets = 0")
      case True
      with po show ?thesis by (subst drain_polls.simps) simp
    next
      case False
      obtain used where used: "bs @ sched i = used @ rest" "packets = m_packets p + packet_sum (concat used)"
        using consume_packets_uses [OF cp] by blast
      with False less.prems(1) have "used \<noteq> []" by auto
      then have "0 < length used" by simp
      moreover have "length bs + length (sched i) = length used + length rest"
        using arg_cong [OF used(1), of length] by simp
      moreover have "length (concat (map sched [i..<k])) = length (sched i) + length (concat (map sched [Suc i..<k]))"
        using quiet [of i] by (cases "i < k") (simp_all add: upt_conv_Cons)
      ultimately have "length rest + length (concat (map sched [Suc i..<k])) < n"
        using less.prems(2) by linarith
      moreover have "m_packets q = 0" by (rule np.drained [OF cp])
      ultimately have "\<exists>r. drain_polls sched (Suc i) rest
          (rb\<lparr>m_readable_words := m_readable_words rb + packets\<rparr>) q = Some r"
        by (intro less.IH [OF _ _ refl])
      with po False show ?thesis by (subst drain_polls.simps) simp
    qed
  qed
qed

subsection \<open>Properties of the ring buffer\<close>

text \<open>A ring of four words, positioned at the last one, for the witnesses.\<close>

definition small_ring :: RingBuffer where
  "small_ring = \<lparr>size_bt = 32, size_qw = 4, rb_port = 1, rb_handle = 2, m_address = 0x1000,
     m_buffer = (\<lambda>i. i + 100), m_region = 5, m_read_index = 3, m_readable_words = 0, m_read_words = 0\<rparr>"

lemma small_ring_wf: "ring_wf small_ring"
  by (simp add: ring_wf_def small_ring_def num_words_to_notify_def)

lemma small_ring_packets:
  "consume_packets [[(0xca, 3)]] (NotificationPoller_new 1) = Inr (3, NotificationPoller_new 1, [])"
  by (simp add: consume_packets_def dispatch_def NotificationPoller_new_def)

text \<open>
  C1: \<^verbatim>\<open>receive\<close> always ends, never reads outside the ring, and returns exactly the readable
  words in order, from the read index on and wrapping at the size of the ring; afterwards the
  read index stands behind the last word returned, nothing is readable or unacknowledged, and
  the rest of the object is unchanged. Only a count beyond the capacity of a vector makes it throw
  instead.
\<close>

theorem receive_returns_ring_slice:
  assumes "ring_wf rb" and "consume_packets bs p = Inr (packets, p', rest)"
    and "n = unat (m_readable_words rb + packets)"
  shows "if m_readable_words rb + packets \<le> vector_max_size
    then \<exists>w'. receive X bs rb p w = Inr (ring_slice rb n,
      rb\<lparr>m_read_index := of_nat ((unat (m_read_index rb) + n) mod unat (size_qw rb)),
        m_readable_words := 0, m_read_words := 0\<rparr>, p', rest, w')
    else receive X bs rb p w = Inl (Throw (length_error ''vector::reserve''))"
  using receive_spec [OF assms, of X w] receive_throws [OF assms(2), of rb X w]
  by (auto simp: too_many_words_def)

theorem receive_returns_ring_slice_witness:
  "\<exists>w'. receive (always RMA2_SUCCESS 0) [[(0xca, 3)]] small_ring (NotificationPoller_new 1) world0
     = Inr ([103, 100, 101], small_ring\<lparr>m_read_index := 2\<rparr>, NotificationPoller_new 1, [], w')"
  using receive_returns_ring_slice [OF small_ring_wf small_ring_packets refl,
      of "always RMA2_SUCCESS 0" world0]
  by (simp add: small_ring_def ring_slice_def upt_rec vector_max_size_def)

text \<open>
  C23: the notifications one call of \<^verbatim>\<open>receive\<close> posts acknowledge, together, exactly the words it
  returned plus those read but not yet acknowledged before; each is posted on the port and
  handle of the ring, carries the trace identifier, and acknowledges at most one word more than
  \<^verbatim>\<open>num_words_to_notify\<close>. Nothing else is called.
\<close>

theorem receive_acknowledges:
  assumes "ring_wf rb" and "receive X bs rb p w = Inr (words, rb', p', rest, w')"
  shows "acked_words (asked w w') = unat (m_read_words rb) + length words
    \<and> list_all (own_notification rb) (asked w w')"
proof -
  from receive_Inr [OF assms(2)] obtain packets where "consume_packets bs p = Inr (packets, p', rest)"
    "m_readable_words rb + packets \<le> vector_max_size" .
  from receive_spec [OF assms(1) this(1) refl this(2), of X w] assms(2) show ?thesis by auto
qed

theorem receive_acknowledges_witness:
  "\<exists>rb' w'. receive (always RMA2_SUCCESS 0) [[(0xca, 3)]] small_ring (NotificationPoller_new 1) world0
       = Inr ([103, 100, 101], rb', NotificationPoller_new 1, [], w')
     \<and> acked_words (asked world0 w') = 3"
proof -
  obtain w' where r: "receive (always RMA2_SUCCESS 0) [[(0xca, 3)]] small_ring (NotificationPoller_new 1) world0
     = Inr ([103, 100, 101], small_ring\<lparr>m_read_index := 2\<rparr>, NotificationPoller_new 1, [], w')"
    using receive_spec [OF small_ring_wf small_ring_packets refl, of "always RMA2_SUCCESS 0" world0]
    by (auto simp: small_ring_def ring_slice_def upt_rec vector_max_size_def)
  from receive_acknowledges [OF small_ring_wf r] r show ?thesis
    by (auto simp: small_ring_def)
qed

text \<open>
  How the packets are spread over calls does not matter: two calls of \<^verbatim>\<open>receive\<close> return, one
  after the other, what one slice of the ring holds over both counts.
\<close>

theorem receive_twice:
  assumes "ring_wf rb" and "receive X bs rb p w = Inr (xs, rb', p', bs', w')"
    and "receive X (bs' @ more_bs) rb' p' w' = Inr (ys, rb'', p'', rest, w'')"
  shows "xs @ ys = ring_slice rb (length xs + length ys) \<and> ring_wf rb''"
proof -
  from receive_Inr [OF assms(2)] obtain m where "consume_packets bs p = Inr (m, p', bs')"
    "m_readable_words rb + m \<le> vector_max_size" .
  from receive_spec [OF assms(1) this(1) refl this(2), of X w] assms(2)
  have xs: "xs = ring_slice rb (length xs)" and wf': "ring_wf rb'"
    and rb': "rb' = rb\<lparr>m_read_index := of_nat ((unat (m_read_index rb) + length xs) mod unat (size_qw rb)),
              m_readable_words := 0, m_read_words := 0\<rparr>"
    by auto
  from receive_Inr [OF assms(3)] obtain n where "consume_packets (bs' @ more_bs) p' = Inr (n, p'', rest)"
    "m_readable_words rb' + n \<le> vector_max_size" .
  from receive_spec [OF wf' this(1) refl this(2), of X w'] assms(3)
  have ys: "ys = ring_slice rb' (length ys)" and "ring_wf rb''"
    by auto
  have "0 < size_qw rb"
    using assms(1) by (auto simp: ring_wf_def word_less_nat_alt)
  from ring_slice_append [OF rb' this, of "length ys"] xs ys \<open>ring_wf rb''\<close> show ?thesis
    by simp
qed

theorem receive_twice_witness:
  "[103, 100] @ [101] = ring_slice small_ring 3"
proof -
  have c1: "consume_packets [[(0xca, 2)], [(0xca, 1)]] (NotificationPoller_new 1)
      = Inr (2, NotificationPoller_new 1, [[(0xca, 1)]])"
    by (simp add: consume_packets_def dispatch_def NotificationPoller_new_def)
  have c2: "consume_packets ([[(0xca, 1)]] @ []) (NotificationPoller_new 1)
      = Inr (1, NotificationPoller_new 1, [])"
    by (simp add: consume_packets_def dispatch_def NotificationPoller_new_def)
  obtain r1 w1 where r1: "receive (always RMA2_SUCCESS 0) [[(0xca, 2)], [(0xca, 1)]] small_ring
      (NotificationPoller_new 1) world0 = Inr ([103, 100], r1, NotificationPoller_new 1, [[(0xca, 1)]], w1)"
    and wf1: "ring_wf r1" and r1_eq: "r1 = small_ring\<lparr>m_read_index := 1\<rparr>"
    using receive_spec [OF small_ring_wf c1 refl, of "always RMA2_SUCCESS 0" world0]
    by (auto simp: small_ring_def ring_slice_def upt_rec vector_max_size_def)
  obtain r2 w2 where r2: "receive (always RMA2_SUCCESS 0) ([[(0xca, 1)]] @ []) r1
      (NotificationPoller_new 1) w1 = Inr ([101], r2, NotificationPoller_new 1, [], w2)"
    using receive_spec [OF wf1 c2 refl, of "always RMA2_SUCCESS 0" w1]
    by (auto simp: r1_eq small_ring_def ring_slice_def upt_rec vector_max_size_def)
  from receive_twice [OF small_ring_wf r1 r2] show ?thesis by (simp add: eval_nat_numeral)
qed

text \<open>
  Every operation keeps the read index inside the ring and the unacknowledged words within
  the limit; \<^verbatim>\<open>reset\<close> and \<^verbatim>\<open>notify\<close> leave nothing unacknowledged, and the only way \<^verbatim>\<open>poll\<close> and
  \<^verbatim>\<open>receive\<close> fail is that the polling thread terminates the process, or that a receive finds more
  words than a vector can hold.
\<close>

theorem ring_operations_keep_invariant:
  assumes "ring_wf rb"
  shows "ring_wf (reset rb) \<and> m_read_words (reset rb) = 0
    \<and> ring_wf (fst (notify X rb w)) \<and> m_read_words (fst (notify X rb w)) = 0
    \<and> (case poll bs rb p of Inl f \<Rightarrow> f = Terminate | Inr (b, rb', p', rest) \<Rightarrow> ring_wf rb')
    \<and> (case receive X bs rb p w of Inl f \<Rightarrow> f = Terminate \<or> f = too_many_words
        | Inr (words, rb', p', rest, w') \<Rightarrow> ring_wf rb' \<and> m_readable_words rb' = 0)"
proof -
  have recv: "case receive X bs rb p w of Inl f \<Rightarrow> f = Terminate \<or> f = too_many_words
        | Inr (words, rb', p', rest, w') \<Rightarrow> ring_wf rb' \<and> m_readable_words rb' = 0"
  proof (cases "consume_packets bs p")
    case (Inl f)
    then show ?thesis using np.only_terminates [OF Inl] by (simp add: receive_def poll_def)
  next
    case (Inr x)
    then obtain n p' rest where cp: "consume_packets bs p = Inr (n, p', rest)" by (cases x) auto
    from receive_spec [OF assms cp refl, of X w] receive_throws [OF cp, of rb X w] show ?thesis
      by (cases "m_readable_words rb + n \<le> vector_max_size") auto
  qed
  have "case poll bs rb p of Inl f \<Rightarrow> f = Terminate | Inr (b, rb', p', rest) \<Rightarrow> ring_wf rb'"
    using assms by (auto simp: poll_def ring_wf_def dest: np.only_terminates split: sum.splits)
  moreover have "ring_wf (reset rb)"
    using assms by (auto simp: ring_wf_def reset_def word_less_nat_alt)
  ultimately show ?thesis
    using assms recv by (simp add: ring_wf_def reset_def notify_def)
qed

theorem ring_operations_keep_invariant_witness:
  "ring_wf (reset small_ring)
    \<and> ring_wf (fst (notify (always RMA2_SUCCESS 0) (small_ring\<lparr>m_read_words := 31744\<rparr>) world0))"
proof -
  have "ring_wf (small_ring\<lparr>m_read_words := 31744\<rparr>)"
    using small_ring_wf by (simp add: ring_wf_def num_words_to_notify_def)
  from ring_operations_keep_invariant [OF this, of "always RMA2_SUCCESS 0" world0 "[]" "NotificationPoller_new 1"]
  show ?thesis by (simp add: reset_def small_ring_def)
qed

text \<open>
  The header calls \<^verbatim>\<open>num_words_to_notify\<close> the maximum number of words acknowledged together;
  the loop notifies only once the count is above it, so the notification it posts is for one
  word more, 31745.
\<close>

theorem receive_word_notifies_late:
  assumes "ring_wf rb" and "m_read_words rb = num_words_to_notify"
  shows "receive_word X (rb, words, w) =
      Inr ((advance rb)\<lparr>m_read_words := 0\<rparr>, words @ [m_buffer rb (m_read_index rb)],
        after X (rma2_post_notification (rb_port rb) (rb_handle rb) 0
          (notify_payload (num_words_to_notify + 1)) RMA2_NO_NOTIFICATION) w)
    \<and> unat (num_words_to_notify + 1) = 31745"
  using assms by (simp add: receive_word_eq notify_call_def advance_def num_words_to_notify_def)

theorem receive_word_notifies_late_witness:
  "receive_word (always RMA2_SUCCESS 0) (small_ring\<lparr>m_read_words := 31744\<rparr>, [], world0)
   = Inr ((advance small_ring)\<lparr>m_read_words := 0\<rparr>, [103],
       world0\<lparr>w_log := [rma2_post_notification 1 2 0 (notify_payload 31745) RMA2_NO_NOTIFICATION]\<rparr>)"
proof -
  have wf: "ring_wf (small_ring\<lparr>m_read_words := 31744\<rparr>)"
    using small_ring_wf by (simp add: ring_wf_def num_words_to_notify_def)
  have lim: "m_read_words (small_ring\<lparr>m_read_words := 31744\<rparr>) = num_words_to_notify"
    by (simp add: num_words_to_notify_def)
  show ?thesis
    using receive_word_notifies_late [OF wf lim, of "always RMA2_SUCCESS 0" "[]" world0]
    by (simp add: small_ring_def advance_def num_words_to_notify_def world0_def)
qed

text \<open>
  C37: whatever the destructor drains, its last notification reports only the words that were read
  before: the drained words are added to the read index and dropped, not to \<^verbatim>\<open>m_read_words\<close>, so
  after a \<^verbatim>\<open>receive\<close> the last sync acknowledges nothing.
\<close>

theorem RingBuffer_delete_drops_drained_words:
  assumes "RingBuffer_delete X sched rb p w = Some (Inr (p', w'))"
  shows "asked w w' =
    [rma2_post_notification (rb_port rb) (rb_handle rb) 0 (notify_payload (m_read_words rb)) RMA2_NO_NOTIFICATION,
     rma2_unregister (rb_port rb) (m_region rb), free_mem (m_address rb)]"
proof -
  from assms obtain rb1 q where d: "drain_polls sched 0 [] rb p = Some (Inr (rb1, q))"
    by (auto simp: RingBuffer_delete_def split: option.splits sum.splits)
  from drain_polls_same [OF d refl] have "rb1 = rb\<lparr>m_readable_words := m_readable_words rb1\<rparr>"
    by (simp add: same_but_readable_def)
  then obtain k where rb1: "rb1 = rb\<lparr>m_readable_words := k\<rparr>" by blast
  from assms d show ?thesis
    by (auto simp: RingBuffer_delete_def rb1 notify_def notify_call_def asked_def Let_def)
qed

theorem RingBuffer_delete_drops_drained_words_witness:
  "\<exists>p' w'. RingBuffer_delete (always RMA2_SUCCESS 0) (\<lambda>i. if i = 0 then [[(0xca, 3)]] else [])
      small_ring (NotificationPoller_new 1) world0 = Some (Inr (p', w'))
    \<and> asked world0 w' = [rma2_post_notification 1 2 0 (notify_payload 0) RMA2_NO_NOTIFICATION,
        rma2_unregister 1 5, free_mem 0x1000]"
proof -
  let ?sched = "\<lambda>i::nat. if i = 0 then [[(0xca::u8, 3::u64)]] else []"
  have "drain_polls ?sched 0 [] small_ring (NotificationPoller_new 1)
      = Some (Inr (small_ring\<lparr>m_readable_words := 3\<rparr>, NotificationPoller_new 1))"
    by (simp add: drain_polls.simps poll_def consume_packets_def dispatch_def NotificationPoller_new_def
        small_ring_def)
  then obtain w' where d: "RingBuffer_delete (always RMA2_SUCCESS 0) ?sched small_ring
      (NotificationPoller_new 1) world0 = Some (Inr (NotificationPoller_new 1, w'))"
    by (simp add: RingBuffer_delete_def Let_def)
  from RingBuffer_delete_drops_drained_words [OF d] d show ?thesis
    by (auto simp: small_ring_def)
qed

text \<open>
  C38: the destructor returns, or terminates the process, as soon as packets stop coming: if from
  some wait on nothing is dispatched, its polling loop ends.
\<close>

theorem RingBuffer_delete_returns:
  assumes "\<And>j. k \<le> j \<Longrightarrow> sched j = []"
  shows "\<exists>r. RingBuffer_delete X sched rb p w = Some r"
proof -
  have "\<exists>r. drain_polls sched 0 [] rb p = Some r"
  proof (cases "poll (sched 0) rb p")
    case (Inl f)
    then show ?thesis by (subst drain_polls.simps) simp
  next
    case (Inr x)
    then obtain again rb' q rest where x: "poll (sched 0) rb p = Inr (again, rb', q, rest)"
      by (cases x) auto
    then have "m_packets q = 0"
      by (auto simp: poll_def dest: np.drained split: sum.splits)
    from drain_polls_returns [of k sched q rest 1, OF assms this refl]
    have "\<exists>r. drain_polls sched 1 rest rb' q = Some r" .
    with x show ?thesis by (subst drain_polls.simps) simp
  qed
  then show ?thesis
    by (auto simp: RingBuffer_delete_def Let_def split: sum.splits)
qed

theorem RingBuffer_delete_returns_witness:
  "\<exists>r. RingBuffer_delete (always RMA2_SUCCESS 0) (\<lambda>i. if i < 2 then [[(0xca, 3)]] else [])
      small_ring (NotificationPoller_new 1) world0 = Some r"
  by (rule RingBuffer_delete_returns [of 2]) simp

text \<open>
  A ring buffer of \<open>npages\<close> pages is 512 quad-words per page, starts empty and satisfies the
  invariant; when the region cannot be registered the constructor throws
  \<^verbatim>\<open>FailedToRegisterRegion\<close>, and the memory it allocated is not freed.
\<close>

theorem RingBuffer_new_result:
  assumes "\<And>e m. r_ret (fst (X sysconf_pagesize e m)) = 4096"
    and "\<And>a b e m. r_out (fst (X (aligned_alloc a b) e m)) = addr"
    and "\<And>a b e m. fst (X (rma2_register port a b) e m) = reg"
    and "0 < npages" and "npages < 0x10000000000000"
    and "rb = \<lparr>size_bt = npages * 4096, size_qw = npages * 512, rb_port = port, rb_handle = handle,
        m_address = addr, m_buffer = contents, m_region = r_out reg, m_read_index = 0,
        m_readable_words = 0, m_read_words = 0\<rparr>"
  shows "\<exists>w'. RingBuffer_new X port handle npages contents w =
      (if r_status reg = RMA2_SUCCESS then Inr rb else Inl (Throw FailedToRegisterRegion), w')
    \<and> asked w w' = [sysconf_pagesize, aligned_alloc 4096 (npages * 4096),
        rma2_register port addr (npages * 4096)]
    \<and> ring_wf rb \<and> unat (size_qw rb) = 512 * unat npages"
proof -
  have ans: "answer X c v = fst (X c (w_env v) (w_mem v))" for c v
    by (simp add: answer_def ask_def split: prod.splits)
  have "unat npages < 0x10000000000000"
    using assms(5) by (simp add: word_less_nat_alt)
  then have n: "unat (npages * 4096) = unat npages * 4096" "unat (npages * 512) = unat npages * 512"
    by (simp_all add: unat_word_ariths)
  then have half: "npages * 4096 div 8 = npages * 512"
    by (simp add: word_unat_eq_iff unat_div_distrib)
  have wf: "ring_wf rb" "unat (size_qw rb) = 512 * unat npages"
    using assms(4,6) n by (simp_all add: ring_wf_def word_less_nat_alt num_words_to_notify_def)
  show ?thesis
    using assms(1-3,6) wf half
    by (cases "r_status reg = RMA2_SUCCESS")
      (simp_all add: RingBuffer_new_def Let_def ans rb_page_size_bt_def asked_def)
qed

theorem RingBuffer_new_result_witness:
  "\<exists>w'. RingBuffer_new (always (RMA2_ERR_OTHER 7) 0x9000) 1 2 2048 (\<lambda>_. 0) world0
     = (Inl (Throw FailedToRegisterRegion), w')
   \<and> asked world0 w' = [sysconf_pagesize, aligned_alloc 4096 0x800000, rma2_register 1 0x9000 0x800000]"
proof -
  have "r_ret (fst (always (RMA2_ERR_OTHER 7) 0x9000 sysconf_pagesize e m)) = 4096"
    "r_out (fst (always (RMA2_ERR_OTHER 7) 0x9000 (aligned_alloc a b) e m)) = 0x9000"
    "fst (always (RMA2_ERR_OTHER 7) 0x9000 (rma2_register 1 a b) e m)
       = \<lparr>r_status = RMA2_ERR_OTHER 7, r_ret = 4096, r_out = 0x9000\<rparr>"
    for a b e m
    by (simp_all add: always_def)
  from RingBuffer_new_result [where X = "always (RMA2_ERR_OTHER 7) 0x9000" and port = 1
      and npages = 2048 and handle = 2 and contents = "\<lambda>_. 0" and w = world0, OF this _ _ refl]
  show ?thesis by auto
qed

end
