(* ===== verification/Ring_Protocol.thy ===== *)
theory Ring_Protocol
  imports Ring_Buffer Simulations
begin

text \<open>
  The ring buffer at work: the FPGA writes the words of a stream into the ring by DMA and
  announces how many it wrote, the polling thread adds the announced counts, the host polls,
  reads word by word and acknowledges. The host's steps are the definitions of \<^verbatim>\<open>Ring_Buffer\<close>
  and \<^verbatim>\<open>Notification_Poller\<close>; all steps interleave in any order.

  The FPGA is not under \<^verbatim>\<open>src/\<close>. Its steps are an assumption on the environment, the contract the
  header documents ("synchronized with the ringbuffer on the remote Fpga", "notifies the
  hardware about how many quad words were read"): it writes the ring positions in turn, it never
  has more words unacknowledged than the ring holds, and it announces only words it has written.
\<close>

subsection \<open>State and steps\<close>

record link =
  ring :: RingBuffer
  poller :: NotificationPoller
  inflight :: "nat list"
  written :: nat
  announced :: nat
  got :: "u64 list"
  posted :: nat
  acked :: nat

text \<open>
  \<open>inflight\<close> holds the counts of the notifications under way, \<open>posted\<close> how many words the host
  has acknowledged and \<open>acked\<close> how many of these acknowledgements have reached the FPGA; \<open>got\<close> is
  what the loop of \<^verbatim>\<open>receive\<close> has pushed so far.
\<close>

definition link_init :: "RingBuffer \<Rightarrow> NotificationPoller \<Rightarrow> link" where
  "link_init rb p =
     \<lparr>ring = reset rb, poller = p, inflight = [], written = 0, announced = 0, got = [],
      posted = 0, acked = 0\<rparr>"

text \<open>The same around a ring buffer as it is, without a reset.\<close>

definition link_start :: "RingBuffer \<Rightarrow> NotificationPoller \<Rightarrow> link" where
  "link_start rb p =
     \<lparr>ring = rb, poller = p, inflight = [], written = 0, announced = 0, got = [], posted = 0, acked = 0\<rparr>"

lemma link_init_start: "link_init rb p = link_start (reset rb) p"
  by (simp add: link_init_def link_start_def)

inductive link_step :: "'e ext \<Rightarrow> (nat \<Rightarrow> u64) \<Rightarrow> link \<Rightarrow> link \<Rightarrow> bool" for X stream where
  fpga_write: "written s < acked s + unat (size_qw (ring s)) \<Longrightarrow>
    link_step X stream s (s\<lparr>ring := (ring s)\<lparr>m_buffer := (m_buffer (ring s))
        (of_nat (written s mod unat (size_qw (ring s))) := stream (written s))\<rparr>,
      written := Suc (written s)\<rparr>)"
| fpga_announce: "announced s + k \<le> written s \<Longrightarrow>
    link_step X stream s (s\<lparr>inflight := inflight s @ [k], announced := announced s + k\<rparr>)"
| fpga_sees_ack: "acked s \<le> k \<Longrightarrow> k \<le> posted s \<Longrightarrow> link_step X stream s (s\<lparr>acked := k\<rparr>)"
| notification: "inflight s = k # ks \<Longrightarrow> dispatch 0xca (of_nat k AND 0xffffffff) (poller s) = Inr p \<Longrightarrow>
    link_step X stream s (s\<lparr>inflight := ks, poller := p\<rparr>)"
| host_poll: "poll [] (ring s) (poller s) = Inr (b, rb, p, rest) \<Longrightarrow>
    link_step X stream s (s\<lparr>ring := rb, poller := p\<rparr>)"
| host_word: "m_readable_words (ring s) > 0 \<Longrightarrow> receive_word X (ring s, got s, w) = Inr (rb, words, w') \<Longrightarrow>
    link_step X stream s (s\<lparr>ring := rb, got := words, posted := posted s + acked_words (asked w w')\<rparr>)"
| host_notify: "notify X (ring s) w = (rb, w') \<Longrightarrow>
    link_step X stream s (s\<lparr>ring := rb, posted := posted s + acked_words (asked w w')\<rparr>)"

inductive link_reach :: "'e ext \<Rightarrow> (nat \<Rightarrow> u64) \<Rightarrow> link \<Rightarrow> link \<Rightarrow> bool" for X stream s0 where
  link_start: "link_reach X stream s0 s0"
| link_next: "link_reach X stream s0 s \<Longrightarrow> link_step X stream s t \<Longrightarrow> link_reach X stream s0 t"

subsection \<open>The invariant\<close>

definition link_inv :: "(nat \<Rightarrow> u64) \<Rightarrow> nat \<Rightarrow> link \<Rightarrow> bool" where
  "link_inv stream cap s \<longleftrightarrow>
     ring_wf (ring s) \<and> unat (size_qw (ring s)) = cap \<and> cap < 0x100000000
     \<and> got s = map stream [0..<length (got s)]
     \<and> unat (m_read_index (ring s)) = length (got s) mod cap
     \<and> length (got s) + unat (m_readable_words (ring s)) + unat (m_packets (poller s)) + sum_list (inflight s)
       = announced s
     \<and> announced s \<le> written s \<and> written s \<le> acked s + cap \<and> acked s \<le> posted s
     \<and> posted s + unat (m_read_words (ring s)) = length (got s)
     \<and> (\<forall>i. length (got s) \<le> i \<and> i < written s \<longrightarrow> m_buffer (ring s) (of_nat (i mod cap)) = stream i)"

lemma link_inv_size: "link_inv stream cap s \<Longrightarrow> 0 < cap"
  by (auto simp: link_inv_def ring_wf_def word_less_nat_alt)

text \<open>Everything on its way to the host fits into the ring, so no counter overflows.\<close>

lemma link_inv_room:
  "link_inv stream cap s \<Longrightarrow>
   unat (m_readable_words (ring s)) + unat (m_packets (poller s)) + sum_list (inflight s) \<le> cap"
  unfolding link_inv_def by linarith

lemma of_nat_mod_inject:
  assumes "0 < cap" and "cap < 0x100000000"
  shows "(of_nat (i mod cap) :: u64) = of_nat (j mod cap) \<longleftrightarrow> i mod cap = j mod cap"
proof -
  have "unat (of_nat (k mod cap) :: u64) = k mod cap" for k
  proof -
    have "k mod cap < 0x100000000"
      using assms by (meson mod_less_divisor order_less_trans)
    then have "k mod cap < 0x10000000000000000" by simp
    then show ?thesis by (simp add: unat_of_nat)
  qed
  then show ?thesis by metis
qed

lemma mod_close_neq: "i < j \<Longrightarrow> j - i < cap \<Longrightarrow> i mod cap \<noteq> j mod (cap::nat)"
  by (metis dvd_imp_mod_0 mod_eq_dvd_iff_nat mod_less nat_less_le zero_less_diff)

lemma link_inv_write:
  assumes inv: "link_inv stream cap s" and room: "written s < acked s + unat (size_qw (ring s))"
  shows "link_inv stream cap (s\<lparr>ring := (ring s)\<lparr>m_buffer := (m_buffer (ring s))
        (of_nat (written s mod unat (size_qw (ring s))) := stream (written s))\<rparr>,
      written := Suc (written s)\<rparr>)"
proof -
  note sz = link_inv_size [OF inv]
  have lt: "cap < 0x100000000" using inv by (simp add: link_inv_def)
  have keep: "(of_nat (i mod cap) :: u64) \<noteq> of_nat (written s mod cap)"
    if "length (got s) \<le> i" "i < written s" for i
  proof -
    have "written s - i < cap"
      using that room inv unfolding link_inv_def by linarith
    with that show ?thesis
      using mod_close_neq [of i "written s" cap] by (simp add: of_nat_mod_inject [OF sz lt])
  qed
  show ?thesis
    using inv room keep unfolding link_inv_def by (auto simp: ring_wf_def less_Suc_eq)
qed

lemma link_inv_notification:
  assumes inv: "link_inv stream cap s" and k: "inflight s = k # ks"
    and d: "dispatch 0xca (of_nat k AND 0xffffffff) (poller s) = Inr p"
  shows "link_inv stream cap (s\<lparr>inflight := ks, poller := p\<rparr>)"
proof -
  have lt: "cap < 0x100000000" using inv by (simp add: link_inv_def)
  have sum: "unat (m_packets (poller s)) + k \<le> cap"
    using link_inv_room [OF inv] k by simp
  with lt have "k < 0x100000000" by linarith
  then have small: "take_bit 32 k = k" by (simp add: take_bit_nat_eq_self_iff)
  have "unat (of_nat k AND (0xffffffff :: u64)) = take_bit 32 (take_bit 64 k)"
    by (simp add: lit_mask take_bit_eq_mask [symmetric] unsigned_take_bit_eq unsigned_of_nat)
  also have "\<dots> = k" using small by simp
  finally have kk: "unat (of_nat k AND (0xffffffff :: u64)) = k" .
  have "unat (m_packets (poller s) + (of_nat k AND 0xffffffff)) = unat (m_packets (poller s)) + k"
    using sum lt kk by (simp add: unat_u64_add)
  moreover have "p = (poller s)\<lparr>m_packets := m_packets (poller s) + (of_nat k AND 0xffffffff)\<rparr>"
    using d by (simp add: dispatch_def)
  ultimately show ?thesis
    using inv k unfolding link_inv_def by simp
qed

lemma link_inv_poll:
  assumes inv: "link_inv stream cap s" and po: "poll [] (ring s) (poller s) = Inr (b, rb, p, rest)"
  shows "link_inv stream cap (s\<lparr>ring := rb, poller := p\<rparr>)"
proof -
  have cp: "consume_packets [] (poller s) = Inr (m_packets (poller s), (poller s)\<lparr>m_packets := 0\<rparr>, [])"
    by (simp add: consume_packets_def)
  have rb: "rb = (ring s)\<lparr>m_readable_words := m_readable_words (ring s) + m_packets (poller s)\<rparr>"
    and p: "p = (poller s)\<lparr>m_packets := 0\<rparr>"
    using po poll_Inr [OF cp, of "ring s"] by auto
  have lt: "cap < 0x100000000" using inv by (simp add: link_inv_def)
  then have "unat (m_readable_words (ring s) + m_packets (poller s))
      = unat (m_readable_words (ring s)) + unat (m_packets (poller s))"
    using link_inv_room [OF inv] by (simp add: unat_u64_add)
  then show ?thesis
    using inv unfolding link_inv_def rb p by (simp add: ring_wf_def)
qed

lemma link_inv_word:
  assumes inv: "link_inv stream cap s" and pos: "m_readable_words (ring s) > 0"
    and word: "receive_word X (ring s, got s, w) = Inr (rb, words, w')"
  shows "link_inv stream cap (s\<lparr>ring := rb, got := words, posted := posted s + acked_words (asked w w')\<rparr>)"
proof -
  let ?r = "length (got s)" and ?x = "m_buffer (ring s) (m_read_index (ring s))"
  note sz = link_inv_size [OF inv]
  have wf: "ring_wf (ring s)" and cap: "unat (size_qw (ring s)) = cap"
    and idx: "unat (m_read_index (ring s)) = ?r mod cap"
    using inv by (simp_all add: link_inv_def)
  have ri: "m_read_index (ring s) < size_qw (ring s)" using wf by (simp add: ring_wf_def)
  have lt: "0 < unat (m_readable_words (ring s))" using pos by (simp add: word_less_nat_alt)
  then have rw: "?r < written s" using inv unfolding link_inv_def by linarith
  have "of_nat (?r mod cap) = m_read_index (ring s)" by (simp add: idx [symmetric])
  with rw inv have x: "?x = stream ?r" unfolding link_inv_def by (metis order_refl)
  have next_idx: "unat (m_read_index (advance (ring s))) = Suc ?r mod cap"
    using advance_index(1) [OF ri] by (simp add: cap idx mod_Suc_eq)
  have readable: "unat (m_readable_words (ring s) - 1) = unat (m_readable_words (ring s)) - 1"
    using pos by (rule unat_u64_pred)
  have got: "got s @ [?x] = map stream [0..<Suc ?r]"
    using inv x by (simp add: link_inv_def)
  from receive_word_result [OF wf word] obtain k where
    eqs: "rb = (advance (ring s))\<lparr>m_read_words := k\<rparr>" "words = got s @ [?x]"
    and sum: "acked_words (asked w w') + unat k = unat (m_read_words (ring s)) + 1" and wf': "ring_wf rb" by blast
  have "posted s + acked_words (asked w w') + unat k = Suc ?r" and "acked s \<le> posted s + acked_words (asked w w')"
    using inv sum by (simp_all add: link_inv_def)
  then show ?thesis
    using inv wf' next_idx readable lt got unfolding link_inv_def eqs by (simp add: cap)
qed

lemma link_inv_notify:
  assumes inv: "link_inv stream cap s" and n: "notify X (ring s) w = (rb, w')"
  shows "link_inv stream cap (s\<lparr>ring := rb, posted := posted s + acked_words (asked w w')\<rparr>)"
proof -
  have "m_read_words (ring s) \<le> num_words_to_notify"
    using inv by (simp add: link_inv_def ring_wf_def)
  then have k: "m_read_words (ring s) \<le> num_words_to_notify + 1"
    by (simp add: num_words_to_notify_def word_le_nat_alt)
  from n have "rb = (ring s)\<lparr>m_read_words := 0\<rparr>" "w' = after X (notify_call (ring s)) w"
    by (auto simp: notify_def)
  then show ?thesis
    using inv acked_notify [OF k] by (simp add: link_inv_def ring_wf_def)
qed

lemma link_inv_step: "link_step X stream s t \<Longrightarrow> link_inv stream cap s \<Longrightarrow> link_inv stream cap t"
proof (induction rule: link_step.induct)
  case (fpga_write s)
  then show ?case by (simp add: link_inv_write)
next
  case (fpga_announce s k)
  then show ?case by (simp add: link_inv_def)
next
  case (fpga_sees_ack s k)
  then show ?case unfolding link_inv_def by auto
next
  case (notification s k ks p)
  then show ?case by (blast intro: link_inv_notification)
next
  case (host_poll s b rb p rest)
  then show ?case by (blast intro: link_inv_poll)
next
  case (host_word s w rb words w')
  then show ?case by (blast intro: link_inv_word)
next
  case (host_notify s w rb w')
  then show ?case by (blast intro: link_inv_notify)
qed

lemma link_inv_init:
  assumes "0 < size_qw rb" and "size_qw rb < 0x100000000" and "m_packets p = 0"
  shows "link_inv stream (unat (size_qw rb)) (link_init rb p)"
  using assms by (simp add: link_inv_def link_init_def reset_def ring_wf_def word_less_nat_alt)

lemma link_reach_inv:
  "link_reach X stream s0 s \<Longrightarrow> link_inv stream cap s0 \<Longrightarrow> link_inv stream cap s"
  by (induction rule: link_reach.induct) (auto intro: link_inv_step)

lemma link_reach_trans:
  "link_reach X stream s t \<Longrightarrow> link_reach X stream r s \<Longrightarrow> link_reach X stream r t"
  by (induction rule: link_reach.induct) (auto intro: link_reach.link_next)

text \<open>The link as a stepped system: what holds in all reachable states.\<close>

interpretation link_system: stepped_invariant "link_step X stream" "link_inv stream cap" for X stream cap
  by unfold_locales (rule link_inv_step)

lemma link_reach_run: "link_reach X stream s t \<longleftrightarrow> (link_step X stream)\<^sup>*\<^sup>* s t"
proof
  show "link_reach X stream s t \<Longrightarrow> (link_step X stream)\<^sup>*\<^sup>* s t"
    by (induction rule: link_reach.induct) (auto intro: rtranclp.rtrancl_into_rtrancl)
  show "(link_step X stream)\<^sup>*\<^sup>* s t \<Longrightarrow> link_reach X stream s t"
    by (induction rule: rtranclp_induct) (auto intro: link_reach.intros)
qed

subsection \<open>Properties of the link\<close>

text \<open>A ring of four words with three words written, announced and delivered; for the witnesses.\<close>

definition demo_ring :: RingBuffer where
  "demo_ring = small_ring\<lparr>m_read_index := 0\<rparr>"

definition demo_link :: link where
  "demo_link = \<lparr>ring = demo_ring\<lparr>m_buffer := (\<lambda>i. i + 100)(0 := 7)\<rparr>,
     poller = (NotificationPoller_new 1)\<lparr>m_packets := 1\<rparr>, inflight = [], written = 1, announced = 1,
     got = [], posted = 0, acked = 0\<rparr>"

lemma demo_link_reach:
  "link_reach (always RMA2_SUCCESS 0) (\<lambda>i. 7) (link_init demo_ring (NotificationPoller_new 1)) demo_link"
proof -
  let ?X = "always RMA2_SUCCESS 0" and ?stream = "\<lambda>i::nat. 7::u64"
  let ?s0 = "link_init demo_ring (NotificationPoller_new 1)"
  let ?s1 = "?s0\<lparr>ring := demo_ring\<lparr>m_buffer := (\<lambda>i. i + 100)(0 := 7)\<rparr>, written := 1\<rparr>"
  let ?s2 = "?s1\<lparr>inflight := [1], announced := 1\<rparr>"
  note demo = link_init_def demo_ring_def small_ring_def reset_def
  have "link_step ?X ?stream ?s0 ?s1"
    using link_step.fpga_write [of ?s0 ?X ?stream] by (simp add: demo)
  then have r1: "link_reach ?X ?stream ?s0 ?s1"
    by (rule link_reach.link_next [OF link_reach.link_start])
  have "link_step ?X ?stream ?s1 ?s2"
    using link_step.fpga_announce [of ?s1 1 ?X ?stream] by (simp add: demo)
  with r1 have r2: "link_reach ?X ?stream ?s0 ?s2"
    by (rule link_reach.link_next)
  have "link_step ?X ?stream ?s2 demo_link"
    using link_step.notification [of ?s2 1 "[]" "(NotificationPoller_new 1)\<lparr>m_packets := 1\<rparr>" ?X ?stream]
    by (simp add: demo demo_link_def dispatch_def NotificationPoller_new_def)
  with r2 show ?thesis
    by (rule link_reach.link_next)
qed

lemma demo_init:
  "0 < size_qw demo_ring" "size_qw demo_ring < 0x100000000" "m_packets (NotificationPoller_new 1) = 0"
  by (simp_all add: demo_ring_def small_ring_def NotificationPoller_new_def)

text \<open>
  In every reachable state of FPGA, polling thread and host, what the host has received is a
  prefix of the stream the FPGA sent: no word is lost, repeated or reordered, however the steps
  interleave; and the host never has more than was announced, nor has been announced more than
  was written.
\<close>

theorem link_delivers_stream:
  assumes "0 < size_qw rb" and "size_qw rb < 0x100000000" and "m_packets p = 0"
    and "link_reach X stream (link_init rb p) s"
  shows "got s = map stream [0..<length (got s)]
    \<and> length (got s) \<le> announced s \<and> announced s \<le> written s"
proof -
  have "link_inv stream (unat (size_qw rb)) s"
    by (rule link_reach_inv [OF assms(4) link_inv_init [OF assms(1-3)]])
  then show ?thesis unfolding link_inv_def by linarith
qed

theorem link_delivers_stream_witness:
  "got demo_link = map (\<lambda>i. 7) [0..<length (got demo_link)]
    \<and> length (got demo_link) \<le> announced demo_link \<and> announced demo_link \<le> written demo_link"
  by (rule link_delivers_stream [OF demo_init demo_link_reach])

text \<open>
  C5: in every reachable state the ring never overruns (the FPGA is at most one ring ahead of
  what was acknowledged, and the counters of words on their way fit into the ring), every call
  of the loop body succeeds, and the words acknowledged plus those still unacknowledged are
  exactly the words received.
\<close>

theorem link_never_overruns:
  assumes "0 < size_qw rb" and "size_qw rb < 0x100000000" and "m_packets p = 0"
    and "link_reach X stream (link_init rb p) s"
  shows "written s \<le> posted s + unat (size_qw rb)
    \<and> unat (m_readable_words (ring s)) + unat (m_packets (poller s)) + sum_list (inflight s)
      \<le> unat (size_qw rb)
    \<and> \<not> isl (receive_word Y (ring s, words, w))
    \<and> posted s + unat (m_read_words (ring s)) = length (got s)"
proof -
  have inv: "link_inv stream (unat (size_qw rb)) s"
    by (rule link_reach_inv [OF assms(4) link_inv_init [OF assms(1-3)]])
  then have "\<not> isl (receive_word Y (ring s, words, w))"
    by (simp add: link_inv_def receive_word_eq)
  with inv link_inv_room [OF inv] show ?thesis
    unfolding link_inv_def by linarith
qed

theorem link_never_overruns_witness:
  "written demo_link \<le> posted demo_link + unat (size_qw demo_ring)
    \<and> unat (m_readable_words (ring demo_link)) + unat (m_packets (poller demo_link))
        + sum_list (inflight demo_link) \<le> unat (size_qw demo_ring)
    \<and> \<not> isl (receive_word (always RMA2_SUCCESS 0) (ring demo_link, [], world0))
    \<and> posted demo_link + unat (m_read_words (ring demo_link)) = length (got demo_link)"
  by (rule link_never_overruns [OF demo_init demo_link_reach])

end
