(* ===== verification/Concurrent_Link.thy ===== *)
theory Concurrent_Link
  imports Ring_Protocol Poller_Threads Simulations
begin

text \<open>
  The whole receive path as it runs: the FPGA writes the ring and announces, the polling thread and
  the host thread interleave at single loads and stores of the shared counter (the steps of
  \<^verbatim>\<open>Poller_Threads\<close>), and the host reads words between its polls. \<^verbatim>\<open>Ring_Protocol\<close> counts a
  notification and polls in one step each; this theory shows that the real interleaving is a
  refinement of it, so that in-order delivery and the absence of overruns hold for the threads.
\<close>

subsection \<open>State and steps\<close>

record clink =
  c_ring :: RingBuffer
  c_threads :: threads
  c_inflight :: "nat list"
  c_written :: nat
  c_announced :: nat
  c_got :: "u64 list"
  c_posted :: nat
  c_acked :: nat

definition clink_init :: "RingBuffer \<Rightarrow> u64 \<Rightarrow> clink" where
  "clink_init rb port =
     \<lparr>c_ring = reset rb, c_threads = threads_init port, c_inflight = [], c_written = 0,
      c_announced = 0, c_got = [], c_posted = 0, c_acked = 0\<rparr>"

text \<open>
  Steps of the threads that neither fetch a notification nor return from a call are those of
  \<^const>\<open>thread_step\<close>. A fetch takes the oldest notification under way, and a return of
  \<^verbatim>\<open>consume_packets\<close> ends the host's \<^verbatim>\<open>poll\<close>, which adds to the readable words. While it is in
  that call the host does nothing else.
\<close>

definition internal :: "threads \<Rightarrow> threads \<Rightarrow> bool" where
  "internal a b \<longleftrightarrow> (poller_at a = PollTurn \<longrightarrow> poller_at b \<in> {PollRun, PollTurn})
     \<and> (\<forall>tmp. consumer_at a = ConsZeroed tmp \<longrightarrow> consumer_at b = ConsZeroed tmp)
     \<and> consumer_at b \<noteq> ConsEnter WantResponse \<and> consumer_at b \<noteq> ConsStopping \<and> poller_at b \<noteq> PollDone"

inductive clink_step :: "'e ext \<Rightarrow> (nat \<Rightarrow> u64) \<Rightarrow> clink \<Rightarrow> clink \<Rightarrow> bool" for X stream where
  c_write: "c_written s < c_acked s + unat (size_qw (c_ring s)) \<Longrightarrow>
    clink_step X stream s (s\<lparr>c_ring := (c_ring s)\<lparr>m_buffer := (m_buffer (c_ring s))
        (of_nat (c_written s mod unat (size_qw (c_ring s))) := stream (c_written s))\<rparr>,
      c_written := Suc (c_written s)\<rparr>)"
| c_announce: "c_announced s + k \<le> c_written s \<Longrightarrow>
    clink_step X stream s (s\<lparr>c_inflight := c_inflight s @ [k], c_announced := c_announced s + k\<rparr>)"
| c_sees_ack: "c_acked s \<le> k \<Longrightarrow> k \<le> c_posted s \<Longrightarrow> clink_step X stream s (s\<lparr>c_acked := k\<rparr>)"
| c_fetch: "c_inflight s = k # ks \<Longrightarrow> poller_at (c_threads s) = PollTurn \<Longrightarrow>
    clink_step X stream s (s\<lparr>c_inflight := ks,
      c_threads := (c_threads s)\<lparr>poller_at := PollFetched 0xca (of_nat k AND 0xffffffff)\<rparr>\<rparr>)"
| c_thread: "thread_step (c_threads s) t \<Longrightarrow> internal (c_threads s) t \<Longrightarrow>
    clink_step X stream s (s\<lparr>c_threads := t\<rparr>)"
| c_return: "consumer_at (c_threads s) = ConsZeroed tmp \<Longrightarrow>
    clink_step X stream s (s\<lparr>c_ring := (c_ring s)\<lparr>m_readable_words := m_readable_words (c_ring s) + tmp\<rparr>,
      c_threads := (c_threads s)\<lparr>mutex := None, consumer_at := ConsOut, taken := taken (c_threads s) @ [tmp]\<rparr>\<rparr>)"
| c_word: "consumer_at (c_threads s) = ConsOut \<Longrightarrow> m_readable_words (c_ring s) > 0 \<Longrightarrow>
    receive_word X (c_ring s, c_got s, w) = Inr (rb, words, w') \<Longrightarrow>
    clink_step X stream s (s\<lparr>c_ring := rb, c_got := words, c_posted := c_posted s + acked_words (asked w w')\<rparr>)"
| c_notify: "consumer_at (c_threads s) = ConsOut \<Longrightarrow> notify X (c_ring s) w = (rb, w') \<Longrightarrow>
    clink_step X stream s (s\<lparr>c_ring := rb, c_posted := c_posted s + acked_words (asked w w')\<rparr>)"

text \<open>The fetch and the return are steps of \<^const>\<open>thread_step\<close> too.\<close>

lemma clink_threads:
  "clink_step X stream s t \<Longrightarrow> thread_step\<^sup>=\<^sup>= (c_threads s) (c_threads t)"
proof (induction rule: clink_step.induct)
  case (c_fetch s k ks)
  then show ?case using thread_step.fetch [of "c_threads s" "0xca" "of_nat k"] by simp
next
  case (c_return s tmp)
  then show ?case using thread_step.return_packets [of "c_threads s" tmp] by simp
qed auto

subsection \<open>The abstraction\<close>

text \<open>
  What the polling thread has fetched but not stored is still under way; what the host has taken
  out of the counter but not returned is already readable.
\<close>

fun in_poller :: "poller_pc \<Rightarrow> nat list" where
  "in_poller (PollFetched cls payload) = [unat payload]"
| "in_poller (PollLocked cls payload) = [unat payload]"
| "in_poller (PollLoaded payload old) = [unat payload]"
| "in_poller _ = []"

definition link_of :: "clink \<Rightarrow> link" where
  "link_of s =
     \<lparr>ring = (c_ring s)\<lparr>m_readable_words := m_readable_words (c_ring s) + in_hand (consumer_at (c_threads s))\<rparr>,
      poller = shared (c_threads s), inflight = in_poller (poller_at (c_threads s)) @ c_inflight s,
      written = c_written s, announced = c_announced s, got = c_got s, posted = c_posted s, acked = c_acked s\<rparr>"

text \<open>Only packet notifications are fetched, and the host only asks for packets.\<close>

fun packets_fetched :: "poller_pc \<Rightarrow> bool" where
  "packets_fetched (PollFetched cls payload) = (cls = 0xca)"
| "packets_fetched (PollLocked cls payload) = (cls = 0xca)"
| "packets_fetched (PollCounting old) = False"
| "packets_fetched PollThrown = False"
| "packets_fetched PollDone = False"
| "packets_fetched _ = True"

fun packets_wanted :: "consumer_pc \<Rightarrow> bool" where
  "packets_wanted (ConsEnter v) = (v = WantPackets)"
| "packets_wanted (ConsTest v) = (v = WantPackets)"
| "packets_wanted (ConsBlocked v) = (v = WantPackets)"
| "packets_wanted (ConsReady v) = (v = WantPackets)"
| "packets_wanted ConsAvail = False"
| "packets_wanted (ConsTaking old) = False"
| "packets_wanted (ConsAnswer b) = False"
| "packets_wanted ConsStopping = False"
| "packets_wanted ConsGone = False"
| "packets_wanted _ = True"

definition packets_only :: "threads \<Rightarrow> bool" where
  "packets_only t \<longleftrightarrow> packets_fetched (poller_at t) \<and> packets_wanted (consumer_at t)"

lemma packets_only_step: "thread_step s t \<Longrightarrow> internal s t \<Longrightarrow> packets_only s \<Longrightarrow> packets_only t"
  by (induction rule: thread_step.induct)
    (auto simp: packets_only_def internal_def intro: wish.exhaust)

subsection \<open>The simulation\<close>

text \<open>What the host has in hand is about to be added to the readable words, without a carry.\<close>

definition no_carry :: "clink \<Rightarrow> bool" where
  "no_carry s \<longleftrightarrow> unat (m_readable_words (c_ring s) + in_hand (consumer_at (c_threads s)))
     = unat (m_readable_words (c_ring s)) + unat (in_hand (consumer_at (c_threads s)))"

definition clink_inv :: "(nat \<Rightarrow> u64) \<Rightarrow> nat \<Rightarrow> clink \<Rightarrow> bool" where
  "clink_inv stream cap s \<longleftrightarrow> link_inv stream cap (link_of s)
     \<and> lock_inv (c_threads s) \<and> fresh_inv (c_threads s) \<and> packets_only (c_threads s) \<and> no_carry s"

lemma masked_count:
  assumes "k < 0x100000000"
  shows "unat (of_nat k AND (0xffffffff :: u64)) = k"
proof -
  have "unat (of_nat k AND (0xffffffff :: u64)) = take_bit 32 (take_bit 64 k)"
    by (simp add: lit_mask take_bit_eq_mask [symmetric] unsigned_take_bit_eq unsigned_of_nat)
  with assms show ?thesis by (simp add: take_bit_nat_eq_self_iff)
qed

text \<open>A count under way is masked without loss, and dispatching it adds it to the counter.\<close>

lemma link_inv_count:
  assumes "link_inv stream cap s" and "k \<in> set (inflight s)"
  shows "k < 0x100000000"
proof -
  have "k \<le> sum_list (inflight s)" using assms(2) by (intro member_le_sum_list) simp_all
  with link_inv_room [OF assms(1)] have "k \<le> cap" by linarith
  then show ?thesis using assms(1) by (simp add: link_inv_def)
qed

lemma masked_payload: "unat (payload :: u64) < 0x100000000 \<Longrightarrow> of_nat (unat payload) AND 0xffffffff = payload"
  by (metis masked_count unsigned_word_eqI)

text \<open>The two steps that the abstract link sees: the store of the sum, and the zeroing of the counter.\<close>

lemma store_is_notification:
  assumes inv: "link_inv stream cap (link_of s)" and at: "poller_at (c_threads s) = PollLoaded payload old"
    and fresh: "old = m_packets (shared (c_threads s))"
  shows "link_step X stream (link_of s) (link_of (s\<lparr>c_threads :=
    (c_threads s)\<lparr>shared := (shared (c_threads s))\<lparr>m_packets := old + payload\<rparr>,
      poller_at := PollStored, added := added (c_threads s) @ [payload]\<rparr>\<rparr>))"
proof -
  let ?p = "(shared (c_threads s))\<lparr>m_packets := old + payload\<rparr>"
  have "unat payload < 0x100000000"
    by (rule link_inv_count [OF inv]) (simp add: link_of_def at)
  then have "dispatch 0xca (of_nat (unat payload) AND 0xffffffff) (poller (link_of s)) = Inr ?p"
    by (simp only: masked_payload) (simp add: dispatch_def link_of_def fresh)
  from link_step.notification [OF _ this, of "c_inflight s" X stream] show ?thesis
    by (simp add: link_of_def at)
qed

lemma zero_is_poll:
  assumes at: "consumer_at (c_threads s) = ConsTmp tmp" and fresh: "tmp = m_packets (shared (c_threads s))"
  shows "link_step X stream (link_of s) (link_of (s\<lparr>c_threads :=
    (c_threads s)\<lparr>shared := (shared (c_threads s))\<lparr>m_packets := 0\<rparr>, consumer_at := ConsZeroed tmp\<rparr>\<rparr>))"
proof -
  have "poll [] (ring (link_of s)) (poller (link_of s)) = Inr (tmp \<noteq> 0,
      (ring (link_of s))\<lparr>m_readable_words := m_readable_words (ring (link_of s)) + tmp\<rparr>,
      (shared (c_threads s))\<lparr>m_packets := 0\<rparr>, [])"
    by (simp add: poll_def consume_packets_def link_of_def fresh)
  from link_step.host_poll [OF this, of X stream] show ?thesis by (simp add: link_of_def at)
qed

lemma thread_refines_link:
  assumes "thread_step (c_threads s) t" and "internal (c_threads s) t" and "clink_inv stream cap s"
  shows "(link_step X stream)\<^sup>=\<^sup>= (link_of s) (link_of (s\<lparr>c_threads := t\<rparr>))"
  using assms(1)
proof (cases rule: thread_step.cases)
  case (store payload old)
  with assms(3) have "old = m_packets (shared (c_threads s))" by (simp add: clink_inv_def fresh_inv_def)
  with store store_is_notification [of stream cap s payload old X] assms(3) show ?thesis
    by (simp add: clink_inv_def)
next
  case (zero tmp)
  with assms(3) have "tmp = m_packets (shared (c_threads s))" by (simp add: clink_inv_def fresh_inv_def)
  with zero zero_is_poll [of s tmp X stream] show ?thesis by simp
qed (use assms(2,3) in \<open>auto simp: link_of_def internal_def clink_inv_def packets_only_def\<close>)

lemma ring_update_commute: "rb\<lparr>m_readable_words := n, m_buffer := m\<rparr> = rb\<lparr>m_buffer := m, m_readable_words := n\<rparr>"
  by simp

lemma clink_refines:
  assumes "clink_inv stream cap s" and "clink_step X stream s t"
  shows "(link_step X stream)\<^sup>=\<^sup>= (link_of s) (link_of t)"
  using assms(2,1)
proof (induction rule: clink_step.induct)
  case (c_write s)
  have "written (link_of s) < acked (link_of s) + unat (size_qw (ring (link_of s)))"
    using c_write.hyps by (simp add: link_of_def)
  from link_step.fpga_write [OF this, of X stream] show ?case by (simp add: link_of_def ring_update_commute)
next
  case (c_announce s k)
  then show ?case using link_step.fpga_announce [of "link_of s" k X stream] by (simp add: link_of_def)
next
  case (c_sees_ack s k)
  then show ?case using link_step.fpga_sees_ack [of "link_of s" k X stream] by (simp add: link_of_def)
next
  case (c_fetch s k ks)
  then have "k < 0x100000000"
    using link_inv_count [of stream cap "link_of s" k] by (simp add: clink_inv_def link_of_def)
  with c_fetch.hyps show ?case by (simp add: link_of_def masked_count)
next
  case (c_thread s t)
  then show ?case by (rule thread_refines_link)
next
  case (c_return s tmp)
  then show ?case by (simp add: link_of_def)
next
  case (c_word s w rb words w')
  then have "ring (link_of s) = c_ring s" "got (link_of s) = c_got s" by (simp_all add: link_of_def)
  with c_word.hyps link_step.host_word [of "link_of s" X w rb words w' stream] show ?case
    by (simp add: link_of_def)
next
  case (c_notify s w rb w')
  then have "ring (link_of s) = c_ring s" by (simp add: link_of_def)
  with c_notify.hyps link_step.host_notify [of X "link_of s" w rb w' stream] show ?case
    by (simp add: link_of_def)
qed

lemma clink_packets_only:
  "clink_step X stream s t \<Longrightarrow> packets_only (c_threads s) \<Longrightarrow> packets_only (c_threads t)"
proof (induction rule: clink_step.induct)
  case (c_thread s t)
  then show ?case by (auto intro: packets_only_step)
qed (simp_all add: packets_only_def)

lemma clink_no_carry:
  assumes "clink_inv stream cap s" and "clink_step X stream s t"
  shows "no_carry t"
  using assms(2,1)
proof (induction rule: clink_step.induct)
  case (c_thread s t)
  note inv = c_thread.prems
  from c_thread.hyps(1) show ?case
  proof (cases rule: thread_step.cases)
    case (zero tmp)
    with inv have tmp: "tmp = m_packets (shared (c_threads s))" by (simp add: clink_inv_def fresh_inv_def)
    from inv have link: "link_inv stream cap (link_of s)" by (simp add: clink_inv_def)
    from link have "cap < 0x100000000" by (simp add: link_inv_def)
    with link_inv_room [OF link] zero tmp show ?thesis by (simp add: no_carry_def link_of_def unat_u64_add)
  qed (use inv c_thread.hyps(2) in \<open>auto simp: no_carry_def clink_inv_def internal_def\<close>)
qed (simp_all add: no_carry_def clink_inv_def)

lemma clink_inv_step:
  assumes "clink_inv stream cap s" and "clink_step X stream s t"
  shows "clink_inv stream cap t"
proof -
  from clink_refines [OF assms] have "link_inv stream cap (link_of t)"
    using assms(1) link_inv_step [of X stream "link_of s" "link_of t" cap] by (auto simp: clink_inv_def)
  moreover have "lock_inv (c_threads t) \<and> fresh_inv (c_threads t)"
    using clink_threads [OF assms(2)] assms(1) lock_inv_step fresh_inv_step by (auto simp: clink_inv_def)
  ultimately show ?thesis
    using clink_packets_only [OF assms(2)] clink_no_carry [OF assms] assms(1) by (simp add: clink_inv_def)
qed

interpretation link_sim: simulation "clink_step X stream" "clink_inv stream cap" "link_step X stream" link_of
  for X stream cap
  by unfold_locales (rule clink_inv_step, assumption+, rule clink_refines)

lemma clink_init_inv:
  assumes "0 < size_qw rb" and "size_qw rb < 0x100000000"
  shows "clink_inv stream (unat (size_qw rb)) (clink_init rb port)"
    and "link_of (clink_init rb port) = link_init rb (NotificationPoller_new port)"
proof -
  show eq: "link_of (clink_init rb port) = link_init rb (NotificationPoller_new port)"
    by (simp add: link_of_def clink_init_def link_init_def threads_init_def reset_def)
  have "m_packets (NotificationPoller_new port) = 0" by (simp add: NotificationPoller_new_def)
  from link_inv_init [OF assms this] show "clink_inv stream (unat (size_qw rb)) (clink_init rb port)"
    using lock_inv_init [of port]
    by (simp add: clink_inv_def eq)
      (simp add: clink_init_def fresh_inv_def packets_only_def no_carry_def, simp add: threads_init_def)
qed

subsection \<open>A concrete run\<close>

definition internal_step :: "threads \<Rightarrow> threads \<Rightarrow> bool" where
  "internal_step a b \<longleftrightarrow> thread_step a b \<and> internal a b"

lemma internal_run:
  "internal_step\<^sup>*\<^sup>* (c_threads s) t \<Longrightarrow> (clink_step X stream)\<^sup>*\<^sup>* s (s\<lparr>c_threads := t\<rparr>)"
proof (induction rule: rtranclp_induct)
  case (step t u)
  then have "clink_step X stream (s\<lparr>c_threads := t\<rparr>) ((s\<lparr>c_threads := t\<rparr>)\<lparr>c_threads := u\<rparr>)"
    by (intro clink_step.c_thread) (simp_all add: internal_step_def)
  with step.IH show ?case by (simp add: rtranclp.rtrancl_into_rtrancl)
qed simp

text \<open>One packet: the polling thread stores it, then the host takes it and is about to return it.\<close>

definition fetched_one :: threads where
  "fetched_one = (threads_init 1)\<lparr>poller_at := PollFetched 0xca 1\<rparr>"

definition taken_one :: threads where
  "taken_one = (threads_init 1)\<lparr>mutex := Some ConsumerThread, consumer_at := ConsZeroed 1, added := [1]\<rparr>"

definition counted_one :: threads where
  "counted_one = (threads_init 1)\<lparr>shared := (NotificationPoller_new 1)\<lparr>m_packets := 1\<rparr>, added := [1]\<rparr>"

lemmas one_defs = internal_step_def internal_def threads_init_def NotificationPoller_new_def
  fetched_one_def counted_one_def taken_one_def

lemma one_packet_counted: "internal_step\<^sup>*\<^sup>* fetched_one counted_one"
proof -
  define a where "a = (threads_init 1)\<lparr>mutex := Some PollingThread, poller_at := PollLocked 0xca 1\<rparr>"
  define b where "b = a\<lparr>poller_at := PollLoaded 1 0\<rparr>"
  define c where "c = counted_one\<lparr>mutex := Some PollingThread, poller_at := PollStored\<rparr>"
  define e where "e = counted_one\<lparr>poller_at := PollUnlocked\<rparr>"
  note d = one_defs a_def b_def c_def e_def
  have 1: "internal_step fetched_one a" using thread_step.lock [of fetched_one "0xca" 1] by (simp add: d)
  have 2: "internal_step a b" using thread_step.load [of a 1] by (simp add: d)
  have 3: "internal_step b c" using thread_step.store [of b 1 0] by (simp add: d)
  have 4: "internal_step c e" using thread_step.unlock [of c] by (simp add: d)
  have 5: "internal_step e counted_one" using thread_step.notify_all [of e] by (simp add: d)
  show ?thesis
    by (rule run_step [OF run_step [OF run_step [OF run_step [OF r_into_rtranclp [of internal_step, OF 1] 2] 3] 4] 5])
qed

lemma one_packet_taken: "internal_step\<^sup>*\<^sup>* counted_one taken_one"
proof -
  define a where "a = counted_one\<lparr>consumer_at := ConsEnter WantPackets\<rparr>"
  define b where "b = counted_one\<lparr>mutex := Some ConsumerThread, consumer_at := ConsTest WantPackets\<rparr>"
  define c where "c = b\<lparr>consumer_at := ConsReady WantPackets\<rparr>"
  define e where "e = b\<lparr>consumer_at := ConsTmp 1\<rparr>"
  note d = one_defs a_def b_def c_def e_def
  have 1: "internal_step counted_one a" using thread_step.enter [of counted_one WantPackets] by (simp add: d)
  have 2: "internal_step a b" using thread_step.acquire [of a WantPackets] by (simp add: d)
  have 3: "internal_step b c" using thread_step.test [of b WantPackets] by (simp add: d)
  have 4: "internal_step c e" using thread_step.read [of c] by (simp add: d)
  have 5: "internal_step e taken_one" using thread_step.zero [of e 1] by (simp add: d)
  show ?thesis
    by (rule run_step [OF run_step [OF run_step [OF run_step [OF r_into_rtranclp [of internal_step, OF 1] 2] 3] 4] 5])
qed

lemma one_packet_run: "internal_step\<^sup>*\<^sup>* fetched_one taken_one"
  by (rule rtranclp_trans [OF one_packet_counted one_packet_taken])

text \<open>The FPGA has written one word, it was announced, counted, taken and read.\<close>

definition demo_read :: clink where
  "demo_read = \<lparr>c_ring = demo_ring\<lparr>m_buffer := (\<lambda>i. i + 100)(0 := 7), m_read_index := 1, m_read_words := 1\<rparr>,
     c_threads = (threads_init 1)\<lparr>added := [1], taken := [1]\<rparr>, c_inflight = [], c_written = 1,
     c_announced = 1, c_got = [7], c_posted = 0, c_acked = 0\<rparr>"

lemma demo_read_run:
  "(clink_step (always RMA2_SUCCESS 0) (\<lambda>i. 7))\<^sup>*\<^sup>* (clink_init demo_ring 1) demo_read"
proof -
  define R where "R = clink_step (always RMA2_SUCCESS 0) (\<lambda>i::nat. 7::u64)"
  define s0 where "s0 = clink_init demo_ring 1"
  define s1 where "s1 = s0\<lparr>c_ring := demo_ring\<lparr>m_buffer := (\<lambda>i. i + 100)(0 := 7)\<rparr>, c_written := 1\<rparr>"
  define s2 where "s2 = s1\<lparr>c_announced := 1, c_inflight := [1]\<rparr>"
  define s2' where "s2' = s2\<lparr>c_threads := (c_threads s2)\<lparr>poller_at := PollTurn\<rparr>\<rparr>"
  define s3 where "s3 = s1\<lparr>c_announced := 1, c_threads := fetched_one\<rparr>"
  define s5 where "s5 = s1\<lparr>c_announced := 1,
    c_ring := demo_ring\<lparr>m_buffer := (\<lambda>i. i + 100)(0 := 7), m_readable_words := 1\<rparr>,
    c_threads := (threads_init 1)\<lparr>added := [1], taken := [1]\<rparr>\<rparr>"
  note d = R_def s0_def s1_def s2_def s2'_def s3_def s5_def clink_init_def demo_ring_def small_ring_def reset_def
    threads_init_def NotificationPoller_new_def
  have 1: "R s0 s1" using clink_step.c_write [of s0] by (simp add: d)
  have 2: "R s1 s2" using clink_step.c_announce [of s1 1] by (simp add: d)
  have 2: "R\<^sup>*\<^sup>* s1 s2'"
    using clink_step.c_thread [OF thread_step.turn [of "c_threads s2"]] 2
    by (intro run_step [OF r_into_rtranclp [of R, OF 2]]) (simp add: d internal_def)
  have 3: "R s2' s3" using clink_step.c_fetch [of s2' 1 "[]"] by (simp add: d fetched_one_def)
  have 4: "R\<^sup>*\<^sup>* s3 (s3\<lparr>c_threads := taken_one\<rparr>)"
    unfolding R_def by (rule internal_run) (simp add: s3_def one_packet_run)
  have 5: "R (s3\<lparr>c_threads := taken_one\<rparr>) s5"
    using clink_step.c_return [of "s3\<lparr>c_threads := taken_one\<rparr>" 1] by (simp add: d taken_one_def)
  have 6: "R s5 demo_read"
    using clink_step.c_word [of s5 "always RMA2_SUCCESS 0" world0]
    by (simp add: d demo_read_def receive_word_def rb_at_def num_words_to_notify_def)
  from run_step [OF rtranclp_trans [OF r_into_rtranclp [of R, OF 1] 2] 3]
  have "R\<^sup>*\<^sup>* s0 (s3\<lparr>c_threads := taken_one\<rparr>)" using 4 by (rule rtranclp_trans)
  from run_step [OF run_step [OF this 5] 6] show ?thesis by (simp only: R_def s0_def)
qed

subsection \<open>Properties of the concurrent link\<close>

text \<open>
  C4: the receive path with the polling thread and the host interleaved at single loads and stores
  refines the link whose steps count a notification and poll atomically: every run is, seen through
  \<open>link_of\<close>, a run of the atomic link.
\<close>

theorem threads_refine_link:
  assumes "0 < size_qw rb" and "size_qw rb < 0x100000000"
    and "(clink_step X stream)\<^sup>*\<^sup>* (clink_init rb port) s"
  shows "(link_step X stream)\<^sup>*\<^sup>* (link_init rb (NotificationPoller_new port)) (link_of s)"
  using link_sim.run_refines [OF assms(3) clink_init_inv(1) [OF assms(1,2)]]
  by (simp only: clink_init_inv(2) [OF assms(1,2)])

theorem threads_refine_link_witness:
  "(link_step (always RMA2_SUCCESS 0) (\<lambda>i. 7))\<^sup>*\<^sup>* (link_init demo_ring (NotificationPoller_new 1))
     (link_of demo_read)"
  by (rule threads_refine_link [OF demo_init(1,2) demo_read_run])

text \<open>
  C2: with the two threads interleaved in any way, what the host has received is a prefix of the
  stream the FPGA sent, and no count is lost or invented: the words received, those readable, those
  the host has in hand between taking and returning the counter, the counter, what the polling thread
  has in hand and the notifications under way add up to exactly what was announced. No more was
  announced than was written, the FPGA never overwrites a word that is not acknowledged, and the
  words acknowledged under the identifier of the trace ring and those not yet acknowledged are the
  words received.
\<close>

theorem concurrent_link_delivers:
  assumes "0 < size_qw rb" and "size_qw rb < 0x100000000"
    and "(clink_step X stream)\<^sup>*\<^sup>* (clink_init rb port) s"
  shows "c_got s = map stream [0..<length (c_got s)]
    \<and> length (c_got s) \<le> c_announced s \<and> c_announced s \<le> c_written s
    \<and> length (c_got s) + unat (m_readable_words (c_ring s)) + unat (in_hand (consumer_at (c_threads s)))
        + unat (m_packets (shared (c_threads s))) + sum_list (in_poller (poller_at (c_threads s)))
        + sum_list (c_inflight s) = c_announced s
    \<and> c_written s \<le> c_posted s + unat (size_qw rb)
    \<and> c_posted s + unat (m_read_words (c_ring s)) = length (c_got s)
    \<and> unat (m_packets (shared (c_threads s))) + sum_list (in_poller (poller_at (c_threads s)))
        + sum_list (c_inflight s) \<le> unat (size_qw rb)"
proof -
  from link_sim.run_keeps [OF assms(3) clink_init_inv(1) [OF assms(1,2)]]
  have inv: "link_inv stream (unat (size_qw rb)) (link_of s)" and carry: "no_carry s"
    by (simp_all add: clink_inv_def)
  from link_inv_room [OF inv] have "unat (m_packets (shared (c_threads s)))
      + sum_list (in_poller (poller_at (c_threads s))) + sum_list (c_inflight s) \<le> unat (size_qw rb)"
    by (simp add: link_of_def)
  with inv carry show ?thesis by (auto simp: link_inv_def link_of_def no_carry_def)
qed

theorem concurrent_link_delivers_witness:
  "c_got demo_read = map (\<lambda>i. 7) [0..<length (c_got demo_read)] \<and> c_got demo_read = [7]
    \<and> length (c_got demo_read) + unat (m_readable_words (c_ring demo_read)) = c_announced demo_read
    \<and> c_posted demo_read + unat (m_read_words (c_ring demo_read)) = length (c_got demo_read)
    \<and> c_written demo_read \<le> c_posted demo_read + unat (size_qw demo_ring)"
  using concurrent_link_delivers [OF demo_init(1,2) demo_read_run] by (simp add: demo_read_def)

end
