(* ===== verification/Receive_Call.thy ===== *)
theory Receive_Call
  imports Ring_Protocol
begin

text \<open>
  One call of \<^verbatim>\<open>receive\<close> beside the FPGA and the polling thread. The call is not atomic: between its
  poll, each turn of its loop and its final notification the FPGA writes, announces and sees
  acknowledgements, and the polling thread counts. The theory follows a call through its phases, shows
  that the sequential definition of \<^verbatim>\<open>receive\<close> is the run without interruptions, and states what a
  call achieves however it is interrupted.
\<close>

subsection \<open>The phases of a call\<close>

datatype phase = Called | Looping | Returned

text \<open>What FPGA and polling thread do leaves the host's side alone.\<close>

definition outside :: "link \<Rightarrow> link \<Rightarrow> bool" where
  "outside s t \<longleftrightarrow> m_read_index (ring t) = m_read_index (ring s)
     \<and> m_readable_words (ring t) = m_readable_words (ring s)
     \<and> m_read_words (ring t) = m_read_words (ring s) \<and> got t = got s \<and> posted t = posted s"

inductive call_step :: "'e ext \<Rightarrow> (nat \<Rightarrow> u64) \<Rightarrow> phase \<times> link \<Rightarrow> phase \<times> link \<Rightarrow> bool" for X stream where
  call_around: "link_step X stream s t \<Longrightarrow> outside s t \<Longrightarrow> call_step X stream (ph, s) (ph, t)"
| call_poll: "poll [] (ring s) (poller s) = Inr (b, rb, p, rest) \<Longrightarrow> m_readable_words rb \<le> vector_max_size \<Longrightarrow>
    call_step X stream (Called, s) (Looping, s\<lparr>ring := rb, poller := p\<rparr>)"
| call_word: "m_readable_words (ring s) > 0 \<Longrightarrow> receive_word X (ring s, got s, w) = Inr (rb, words, w') \<Longrightarrow>
    call_step X stream (Looping, s)
      (Looping, s\<lparr>ring := rb, got := words, posted := posted s + acked_words (asked w w')\<rparr>)"
| call_notify: "\<not> m_readable_words (ring s) > 0 \<Longrightarrow> notify X (ring s) w = (rb, w') \<Longrightarrow>
    call_step X stream (Looping, s)
      (Returned, s\<lparr>ring := rb, posted := posted s + acked_words (asked w w')\<rparr>)"

inductive_cases call_stepE: "call_step X stream (ph, s) u"

text \<open>Every step of a call is a step of the link.\<close>

lemma call_step_link: "call_step X stream u v \<Longrightarrow> link_step X stream (snd u) (snd v)"
  by (induction rule: call_step.induct) (auto intro: link_step.intros)

lemma call_run_link: "(call_step X stream)\<^sup>*\<^sup>* u v \<Longrightarrow> (link_step X stream)\<^sup>*\<^sup>* (snd u) (snd v)"
proof (induction rule: rtranclp_induct)
  case (step v1 v2)
  from run_step [OF step.IH call_step_link [OF step.hyps(2)]] show ?case .
qed simp

subsection \<open>The sequential receive is a call without interruptions\<close>

lemma receive_word_prefix:
  "receive_word X (rb, pre @ words, w) =
     (case receive_word X (rb, words, w) of Inl f \<Rightarrow> Inl f
      | Inr (rb', words', w') \<Rightarrow> Inr (rb', pre @ words', w'))"
  by (simp add: receive_word_def notify_def Let_def split: sum.splits)

lemma receive_loop_prefix:
  "receive_loop X (rb, pre @ words, w) =
     (case receive_loop X (rb, words, w) of Inl f \<Rightarrow> Inl f
      | Inr (rb', words', w') \<Rightarrow> Inr (rb', pre @ words', w'))"
proof (induction "unat (m_readable_words rb)" arbitrary: rb words w rule: less_induct)
  case less
  show ?case
  proof (cases "m_readable_words rb > 0")
    case False
    then show ?thesis by (simp add: receive_loop_done word_gt_0)
  next
    case True
    show ?thesis
    proof (cases "receive_word X (rb, words, w)")
      case (Inl f)
      then show ?thesis
        using True receive_word_prefix [of X rb pre words w]
        by (simp add: receive_loop.simps [of X "(rb, words, w)"] receive_loop.simps [of X "(rb, pre @ words, w)"])
    next
      case (Inr y)
      obtain rb1 words1 w1 where y: "receive_word X (rb, words, w) = Inr (rb1, words1, w1)"
        using Inr by (cases y) auto
      have "unat (m_readable_words rb1) < unat (m_readable_words rb)"
        using receive_word_readable [OF y] True by (simp add: unat_u64_pred word_less_nat_alt)
      from less [OF this] show ?thesis
        using True y receive_word_prefix [of X rb pre words w] by (simp add: receive_loop_step)
    qed
  qed
qed

lemma receive_word_extends: "receive_word X (rb, words, w) = Inr (rb', words', w') \<Longrightarrow> extends w w'"
  by (auto simp: receive_word_def notify_def Let_def split: sum.splits if_splits)

lemma receive_loop_calls:
  assumes "receive_loop X (ring s, got s, w) = Inr (rb', words', w')"
  shows "extends w w' \<and> \<not> m_readable_words rb' > 0 \<and> (call_step X stream)\<^sup>*\<^sup>* (Looping, s)
    (Looping, s\<lparr>ring := rb', got := words', posted := posted s + acked_words (asked w w')\<rparr>)"
  using assms
proof (induction "unat (m_readable_words (ring s))" arbitrary: s w rule: less_induct)
  case less
  show ?case
  proof (cases "m_readable_words (ring s) > 0")
    case False
    with less.prems show ?thesis by (auto simp: receive_loop_done word_gt_0)
  next
    case True
    with less.prems obtain rb1 words1 w1 where
      y: "receive_word X (ring s, got s, w) = Inr (rb1, words1, w1)"
      by (auto simp: receive_loop.simps [of X "(ring s, got s, w)"] split: sum.splits)
    let ?t = "s\<lparr>ring := rb1, got := words1, posted := posted s + acked_words (asked w w1)\<rparr>"
    have one: "call_step X stream (Looping, s) (Looping, ?t)" by (rule call_step.call_word [OF True y])
    have run: "receive_loop X (ring ?t, got ?t, w1) = Inr (rb', words', w')"
      using less.prems receive_loop_step [OF True y] by simp
    have smaller: "unat (m_readable_words (ring ?t)) < unat (m_readable_words (ring s))"
      using receive_word_readable [OF y] True by (simp add: unat_u64_pred word_less_nat_alt)
    note ih = less.hyps [OF smaller run]
    have ext: "extends w w1" by (rule receive_word_extends [OF y])
    with ih have log: "asked w w' = asked w w1 @ asked w1 w'" by (intro asked_trans) simp_all
    have eq: "?t\<lparr>ring := rb', got := words', posted := posted ?t + acked_words (asked w1 w')\<rparr>
        = s\<lparr>ring := rb', got := words', posted := posted s + acked_words (asked w w')\<rparr>"
      unfolding log by (simp add: add.assoc)
    from ih have "(call_step X stream)\<^sup>*\<^sup>* (Looping, ?t)
        (Looping, s\<lparr>ring := rb', got := words', posted := posted s + acked_words (asked w w')\<rparr>)"
      unfolding eq [symmetric] by blast
    from converse_rtranclp_into_rtranclp [of "call_step X stream", OF one this] ext ih show ?thesis
      by (auto intro: extends_trans)
  qed
qed

lemma receive_is_call:
  assumes run: "receive X [] (ring s) (poller s) w = Inr (words, rb', p', rest, w')"
  shows "(call_step X stream)\<^sup>*\<^sup>* (Called, s) (Returned, s\<lparr>ring := rb', poller := p', got := got s @ words,
    posted := posted s + acked_words (asked w w')\<rparr>)"
proof -
  from run obtain b rb1 rb2 v where po: "poll [] (ring s) (poller s) = Inr (b, rb1, p', rest)"
    and fits: "m_readable_words rb1 \<le> vector_max_size"
    and loop: "receive_loop X (rb1, [], w) = Inr (rb2, words, v)"
    and noti: "notify X rb2 v = (rb', w')"
    by (auto simp: receive_def not_less split: sum.splits prod.splits if_splits)
  let ?s1 = "s\<lparr>ring := rb1, poller := p'\<rparr>"
  let ?s2 = "?s1\<lparr>ring := rb2, got := got s @ words, posted := posted s + acked_words (asked w v)\<rparr>"
  have 1: "call_step X stream (Called, s) (Looping, ?s1)" by (rule call_step.call_poll [OF po fits])
  have "receive_loop X (ring ?s1, got ?s1, w) = Inr (rb2, got s @ words, v)"
    using receive_loop_prefix [of X rb1 "got s" "[]" w] loop by simp
  note loop_calls = receive_loop_calls [OF this, of stream]
  then have 2: "(call_step X stream)\<^sup>*\<^sup>* (Looping, ?s1) (Looping, ?s2)"
    and ext: "extends w v" and fin: "\<not> m_readable_words (ring ?s2) > 0" by simp_all
  have "notify X (ring ?s2) v = (rb', w')" using noti by simp
  note 3 = call_step.call_notify [OF fin this, of stream]
  have log: "asked w w' = asked w v @ asked v w'"
    using ext noti by (auto simp: notify_def intro: asked_trans)
  have "?s2\<lparr>ring := rb', posted := posted ?s2 + acked_words (asked v w')\<rparr> = s\<lparr>ring := rb', poller := p',
      got := got s @ words, posted := posted s + acked_words (asked w w')\<rparr>"
    unfolding log by (cases s) simp
  with run_step [OF rtranclp_trans [OF r_into_rtranclp [of "call_step X stream", OF 1] 2] 3]
  show ?thesis by simp
qed

lemma receive_is_run:
  assumes "receive X [] (ring s) (poller s) w = Inr (words, rb', p', rest, w')"
  shows "(link_step X stream)\<^sup>*\<^sup>* s (s\<lparr>ring := rb', poller := p', got := got s @ words,
    posted := posted s + acked_words (asked w w')\<rparr>)"
  using call_run_link [OF receive_is_call [OF assms]] by simp

text \<open>Once nothing is under way, one call of \<^verbatim>\<open>receive\<close> takes everything that was announced.\<close>

lemma receive_in_link:
  assumes inv: "link_inv stream cap s"
  shows "\<exists>words rb' p' w'. receive X [] (ring s) (poller s) w = Inr (words, rb', p', [], w')
    \<and> (call_step X stream)\<^sup>*\<^sup>* (Called, s) (Returned, s\<lparr>ring := rb', poller := p', got := got s @ words,
        posted := posted s + acked_words (asked w w')\<rparr>)"
proof -
  have cp: "consume_packets [] (poller s) = Inr (m_packets (poller s), (poller s)\<lparr>m_packets := 0\<rparr>, [])"
    by (simp add: consume_packets_def)
  have "cap < 0x100000000" using inv by (simp add: link_inv_def)
  with link_inv_room [OF inv] have "m_readable_words (ring s) + m_packets (poller s) \<le> vector_max_size"
    by (simp add: unat_u64_add word_le_nat_alt vector_max_size_def)
  moreover have "ring_wf (ring s)" using inv by (simp add: link_inv_def)
  ultimately obtain words rb' w' where
    "receive X [] (ring s) (poller s) w = Inr (words, rb', (poller s)\<lparr>m_packets := 0\<rparr>, [], w')"
    using receive_spec [OF _ cp refl, of "ring s" X w] by blast
  with receive_is_call [OF this, of stream] show ?thesis by blast
qed

lemma receive_drains:
  assumes inv: "link_inv stream cap s" and empty: "inflight s = []"
  shows "\<exists>words rb' p' w'. receive X [] (ring s) (poller s) w = Inr (words, rb', p', [], w')
    \<and> got s @ words = map stream [0..<announced s]
    \<and> posted s + acked_words (asked w w') = announced s"
proof -
  have cp: "consume_packets [] (poller s) = Inr (m_packets (poller s), (poller s)\<lparr>m_packets := 0\<rparr>, [])"
    by (simp add: consume_packets_def)
  let ?n = "unat (m_readable_words (ring s) + m_packets (poller s))"
  have "cap < 0x100000000" using inv by (simp add: link_inv_def)
  then have "?n = unat (m_readable_words (ring s)) + unat (m_packets (poller s))"
    using link_inv_room [OF inv] by (simp add: unat_u64_add)
  then have n: "length (got s) + ?n = announced s"
    using inv empty by (simp add: link_inv_def)
  have wf: "ring_wf (ring s)" using inv by (simp add: link_inv_def)
  have "?n < 0x100000000" using n inv by (simp add: link_inv_def)
  then have fits: "m_readable_words (ring s) + m_packets (poller s) \<le> vector_max_size"
    by (simp add: word_le_nat_alt vector_max_size_def)
  from receive_spec [OF wf cp refl fits, of X w] obtain rb' w' where
    run: "receive X [] (ring s) (poller s) w
      = Inr (ring_slice (ring s) ?n, rb', (poller s)\<lparr>m_packets := 0\<rparr>, [], w')"
    and acks: "acked_words (asked w w') = unat (m_read_words (ring s)) + ?n"
    by blast
  from link_system.run_keeps [OF receive_is_run [OF run] inv]
  have "got s @ ring_slice (ring s) ?n = map stream [0..<announced s]"
    using n by (simp add: link_inv_def)
  moreover have "posted s + acked_words (asked w w') = announced s"
    using acks n inv by (simp add: link_inv_def)
  ultimately show ?thesis using run by blast
qed

subsection \<open>What a call achieves\<close>

text \<open>\<open>k\<close> words were received, readable or counted when the call began.\<close>

definition call_inv :: "(nat \<Rightarrow> u64) \<Rightarrow> nat \<Rightarrow> nat \<Rightarrow> phase \<times> link \<Rightarrow> bool" where
  "call_inv stream cap k u \<longleftrightarrow> link_inv stream cap (snd u) \<and> (case fst u of
     Called \<Rightarrow> k \<le> length (got (snd u)) + unat (m_readable_words (ring (snd u))) + unat (m_packets (poller (snd u)))
   | Looping \<Rightarrow> k \<le> length (got (snd u)) + unat (m_readable_words (ring (snd u)))
   | Returned \<Rightarrow> k \<le> length (got (snd u)) \<and> m_readable_words (ring (snd u)) = 0 \<and> m_read_words (ring (snd u)) = 0)"

text \<open>Outside steps never take packets out of the counter.\<close>

lemma outside_packets:
  assumes "link_step X stream s t" and "outside s t" and "link_inv stream cap s"
  shows "unat (m_packets (poller s)) \<le> unat (m_packets (poller t))"
  using assms(1)
proof (cases rule: link_step.cases)
  case (notification k ks p)
  have "link_inv stream cap t" by (rule link_system.keeps [OF assms(3,1)])
  with assms(2,3) notification show ?thesis by (simp add: link_inv_def outside_def)
next
  case (host_poll b rb p rest)
  have "m_packets (poller s) = 0"
    using assms(2) host_poll by (auto simp: outside_def poll_def consume_packets_def split: sum.splits)
  then show ?thesis by simp
qed simp_all

lemma call_inv_step:
  assumes "call_inv stream cap k u" and "call_step X stream u v"
  shows "call_inv stream cap k v"
proof -
  from assms(1) have inv: "link_inv stream cap (snd u)" by (simp add: call_inv_def)
  note link = link_system.keeps [OF inv call_step_link [OF assms(2)]]
  from assms(2) show ?thesis
  proof (cases rule: call_step.cases)
    case (call_around s t ph)
    from outside_packets [OF call_around(3,4)] inv call_around(1) have
      "unat (m_packets (poller s)) \<le> unat (m_packets (poller t))" by simp
    with call_around assms(1) link show ?thesis
      by (cases ph) (auto simp: call_inv_def outside_def)
  next
    case (call_poll s b rb p rest)
    then have rb: "m_readable_words rb = m_readable_words (ring s) + m_packets (poller s)" "p = (poller s)\<lparr>m_packets := 0\<rparr>"
      by (auto simp: poll_def consume_packets_def)
    have "cap < 0x100000000" using inv by (simp add: link_inv_def)
    with link_inv_room [OF inv] call_poll(1) have
      "unat (m_readable_words rb) = unat (m_readable_words (ring s)) + unat (m_packets (poller s))"
      by (simp add: rb unat_u64_add)
    with assms(1) link call_poll show ?thesis by (simp add: call_inv_def)
  next
    case (call_word s w rb words w')
    have "ring_wf (ring s)" using inv call_word(1) by (simp add: link_inv_def)
    from receive_word_result [OF this call_word(4)] have "length words = Suc (length (got s))"
      "m_readable_words rb = m_readable_words (ring s) - 1" by auto
    moreover have "0 < unat (m_readable_words (ring s))" using call_word(3) by (simp add: word_less_nat_alt)
    ultimately show ?thesis using assms(1) link call_word unat_u64_pred [OF call_word(3)] by (simp add: call_inv_def)
  next
    case (call_notify s w rb w')
    then have "m_readable_words rb = 0" "m_read_words rb = 0" "m_readable_words (ring s) = 0"
      by (auto simp: notify_def word_gt_0)
    with assms(1) link call_notify show ?thesis by (simp add: call_inv_def)
  qed
qed

interpretation call_system: stepped_invariant "call_step X stream" "call_inv stream cap k" for X stream cap k
  by unfold_locales (rule call_inv_step)

lemma looping_returns:
  assumes "link_inv stream cap s"
  shows "\<exists>t. (call_step X stream)\<^sup>*\<^sup>* (Looping, s) (Returned, t)"
proof -
  have "ring_wf (ring s)" using assms by (simp add: link_inv_def)
  from receive_loop_spec [OF this refl, of X "got s" undefined] obtain rb' w' where
    "loop_result X (ring s) (got s) undefined (unat (m_readable_words (ring s))) rb' w'" by blast
  then obtain words where "receive_loop X (ring s, got s, undefined) = Inr (rb', words, w')"
    by (auto simp: loop_result_def)
  from receive_loop_calls [OF this, of stream] obtain t where
    t: "(call_step X stream)\<^sup>*\<^sup>* (Looping, s) (Looping, t)" "\<not> m_readable_words (ring t) > 0" by auto
  from run_step [OF t(1) call_step.call_notify [OF t(2) surjective_pairing]] show ?thesis by blast
qed

lemma call_returns:
  assumes "call_inv stream cap k (ph, s)"
  shows "\<exists>t. (call_step X stream)\<^sup>*\<^sup>* (ph, s) (Returned, t)"
proof (cases ph)
  case Called
  from assms have inv: "link_inv stream cap s" by (simp add: call_inv_def)
  let ?rb = "(ring s)\<lparr>m_readable_words := m_readable_words (ring s) + m_packets (poller s)\<rparr>"
  let ?s = "s\<lparr>ring := ?rb, poller := (poller s)\<lparr>m_packets := 0\<rparr>\<rparr>"
  have "cap < 0x100000000" using inv by (simp add: link_inv_def)
  with link_inv_room [OF inv] have "m_readable_words ?rb \<le> vector_max_size"
    by (simp add: unat_u64_add word_le_nat_alt vector_max_size_def)
  then have one: "call_step X stream (Called, s) (Looping, ?s)"
    by (intro call_step.call_poll) (simp_all add: poll_def consume_packets_def)
  from link_system.keeps [OF inv, of X ?s] call_step_link [OF one] have "link_inv stream cap ?s" by simp
  from looping_returns [OF this, of X] one show ?thesis unfolding Called
    by (meson converse_rtranclp_into_rtranclp)
next
  case Looping
  with assms looping_returns [of stream cap s X] show ?thesis by (simp add: call_inv_def)
qed auto

subsection \<open>Properties\<close>

text \<open>
  C22: a call of \<^verbatim>\<open>receive\<close> that is interrupted in any way by the FPGA and the polling thread can
  always run to its end, and has received a prefix of the stream at any time. When it has returned, it
  has received at least every word that was received, readable or counted when it began, nothing is
  readable, and every word received has been acknowledged under the identifier of the trace ring.
  The sequential \<^verbatim>\<open>receive\<close> is such a call: in every reachable state it returns, with the words, the
  ring, the counter and the acknowledgements of a call that ran from its beginning to its end.
\<close>

theorem interrupted_receive_completes:
  assumes "0 < size_qw rb" and "size_qw rb < 0x100000000" and "m_packets p = 0"
    and "link_reach X stream (link_init rb p) s" and "(call_step X stream)\<^sup>*\<^sup>* (Called, s) (ph, t)"
  shows "(\<exists>u. (call_step X stream)\<^sup>*\<^sup>* (ph, t) (Returned, u))
    \<and> got t = map stream [0..<length (got t)]
    \<and> (ph = Returned \<longrightarrow>
        length (got s) + unat (m_readable_words (ring s)) + unat (m_packets (poller s)) \<le> length (got t)
      \<and> m_readable_words (ring t) = 0 \<and> posted t = length (got t))
    \<and> (\<exists>words rb' p' w'. receive X [] (ring s) (poller s) w = Inr (words, rb', p', [], w')
      \<and> (call_step X stream)\<^sup>*\<^sup>* (Called, s) (Returned, s\<lparr>ring := rb', poller := p', got := got s @ words,
          posted := posted s + acked_words (asked w w')\<rparr>))"
proof -
  let ?cap = "unat (size_qw rb)"
  let ?k = "length (got s) + unat (m_readable_words (ring s)) + unat (m_packets (poller s))"
  have link: "link_inv stream ?cap s" by (rule link_reach_inv [OF assms(4) link_inv_init [OF assms(1-3)]])
  then have "call_inv stream ?cap ?k (Called, s)" by (simp add: call_inv_def)
  from call_system.run_keeps [OF assms(5) this] have inv: "call_inv stream ?cap ?k (ph, t)" .
  show ?thesis
  proof (intro conjI)
    show "\<exists>u. (call_step X stream)\<^sup>*\<^sup>* (ph, t) (Returned, u)" by (rule call_returns [OF inv])
    show "got t = map stream [0..<length (got t)]" using inv by (simp add: call_inv_def link_inv_def)
    show "ph = Returned \<longrightarrow> ?k \<le> length (got t) \<and> m_readable_words (ring t) = 0 \<and> posted t = length (got t)"
      using inv by (auto simp: call_inv_def link_inv_def)
  qed (rule receive_in_link [OF link])
qed

theorem interrupted_receive_completes_witness:
  "\<exists>t. (call_step (always RMA2_SUCCESS 0) (\<lambda>i. 7))\<^sup>*\<^sup>* (Called, demo_link) (Returned, t)
    \<and> 1 \<le> length (got t) \<and> posted t = length (got t)"
proof -
  note all = interrupted_receive_completes [OF demo_init demo_link_reach, where w = world0]
  from all [OF rtranclp.rtrancl_refl] obtain t where
    run: "(call_step (always RMA2_SUCCESS 0) (\<lambda>i. 7))\<^sup>*\<^sup>* (Called, demo_link) (Returned, t)" by blast
  from all [OF run] have "posted t = length (got t)" "1 \<le> length (got t)"
    by (simp_all add: demo_link_def)
  with run show ?thesis by blast
qed

text \<open>
  Nothing announced is ever stuck: once the notifications under way have been counted, one
  call of \<^verbatim>\<open>receive\<close> returns, completes the received words to all words announced so far, and
  leaves every one of them acknowledged.
\<close>

theorem receive_drains_link:
  assumes "0 < size_qw rb" and "size_qw rb < 0x100000000" and "m_packets p = 0"
    and "link_reach X stream (link_init rb p) s" and "inflight s = []"
  shows "\<exists>words rb' p' w'. receive X [] (ring s) (poller s) w = Inr (words, rb', p', [], w')
    \<and> got s @ words = map stream [0..<announced s]
    \<and> posted s + acked_words (asked w w') = announced s"
  by (rule receive_drains [OF link_reach_inv [OF assms(4) link_inv_init [OF assms(1-3)]] assms(5)])

theorem receive_drains_link_witness:
  "\<exists>words rb' p' w'. receive (always RMA2_SUCCESS 0) [] (ring demo_link) (poller demo_link) world0
      = Inr (words, rb', p', [], w')
    \<and> got demo_link @ words = map (\<lambda>i. 7) [0..<announced demo_link]
    \<and> posted demo_link + acked_words (asked world0 w') = announced demo_link"
  by (rule receive_drains_link [OF demo_init demo_link_reach]) (simp add: demo_link_def)

end
