(* ===== verification/Link_Liveness.thy ===== *)
theory Link_Liveness
  imports Receive_Call
begin

text \<open>
  The flow control between FPGA and host never blocks for good: from every reachable state of the
  link the announced words can be delivered, received and acknowledged, which makes room for the
  next ones, so that any number of words of the stream can still be received.
\<close>

subsection \<open>Settling\<close>

text \<open>Nothing is under way: all that was written has been announced, received and acknowledged.\<close>

definition settled :: "link \<Rightarrow> bool" where
  "settled s \<longleftrightarrow> inflight s = [] \<and> length (got s) = written s \<and> announced s = written s
     \<and> posted s = written s \<and> acked s = written s"

lemma can_count_all:
  "\<exists>p. (link_step X stream)\<^sup>*\<^sup>* s (s\<lparr>inflight := [], poller := p\<rparr>)"
proof (induction "inflight s" arbitrary: s)
  case Nil
  then have "s\<lparr>inflight := [], poller := poller s\<rparr> = s" by simp
  then show ?case by (metis rtranclp.rtrancl_refl)
next
  case (Cons k ks)
  obtain p where "dispatch 0xca (of_nat k AND 0xffffffff) (poller s) = Inr p"
    by (simp add: dispatch_def)
  with Cons(2) have one: "link_step X stream s (s\<lparr>inflight := ks, poller := p\<rparr>)"
    by (intro link_step.notification) simp_all
  from Cons(1) [of "s\<lparr>inflight := ks, poller := p\<rparr>"] obtain q where
    "(link_step X stream)\<^sup>*\<^sup>* (s\<lparr>inflight := ks, poller := p\<rparr>) (s\<lparr>inflight := [], poller := q\<rparr>)" by auto
  with one show ?case by (meson converse_rtranclp_into_rtranclp)
qed

lemma can_receive_all:
  assumes inv: "link_inv stream cap s" and "inflight s = []" and "announced s = written s"
  shows "\<exists>t. (link_step X stream)\<^sup>*\<^sup>* s t \<and> settled t \<and> written t = written s"
proof -
  from receive_drains [OF assms(1,2), of X undefined] obtain words rb p w' where
    run: "receive X [] (ring s) (poller s) undefined = Inr (words, rb, p, [], w')"
    and all: "got s @ words = map stream [0..<announced s]"
    and acks: "posted s + acked_words (asked undefined w') = announced s" by blast
  let ?t = "s\<lparr>ring := rb, poller := p, got := got s @ words,
    posted := posted s + acked_words (asked undefined w')\<rparr>"
  have reach: "(link_step X stream)\<^sup>*\<^sup>* s ?t"
    by (rule receive_is_run [OF run])
  have len: "length (got s @ words) = announced s" unfolding all by simp
  have "acked s \<le> announced s" using inv acks unfolding link_inv_def by linarith
  then have "link_step X stream ?t (?t\<lparr>acked := posted ?t\<rparr>)"
    using acks by (intro link_step.fpga_sees_ack) simp_all
  with reach have "(link_step X stream)\<^sup>*\<^sup>* s (?t\<lparr>acked := posted ?t\<rparr>)"
    by (rule rtranclp.rtrancl_into_rtrancl)
  moreover have "settled (?t\<lparr>acked := posted ?t\<rparr>)"
    using acks assms(2,3) len by (simp add: settled_def)
  ultimately show ?thesis by (intro exI [of _ "?t\<lparr>acked := posted ?t\<rparr>"]) simp
qed

lemma can_settle:
  assumes "link_inv stream cap s"
  shows "\<exists>t. (link_step X stream)\<^sup>*\<^sup>* s t \<and> settled t \<and> written t = written s"
proof -
  let ?k = "written s - announced s"
  have k: "announced s + ?k = written s" using assms unfolding link_inv_def by simp
  let ?s1 = "s\<lparr>inflight := inflight s @ [?k], announced := announced s + ?k\<rparr>"
  have 1: "(link_step X stream)\<^sup>*\<^sup>* s ?s1"
    using link_step.fpga_announce [of s ?k X stream] k by (intro r_into_rtranclp) simp
  obtain p where 2: "(link_step X stream)\<^sup>*\<^sup>* ?s1 (?s1\<lparr>inflight := [], poller := p\<rparr>)"
    using can_count_all [of X stream ?s1] by blast
  let ?s2 = "?s1\<lparr>inflight := [], poller := p\<rparr>"
  have run: "(link_step X stream)\<^sup>*\<^sup>* s ?s2" using 1 2 by (rule rtranclp_trans)
  have "link_inv stream cap ?s2" by (rule link_system.run_keeps [OF run assms])
  from can_receive_all [OF this, of X] obtain t where
    "(link_step X stream)\<^sup>*\<^sup>* ?s2 t" "settled t" "written t = written s" using k by auto
  with rtranclp_trans [OF run] show ?thesis by blast
qed

lemma can_receive_more:
  assumes "link_inv stream cap s"
  shows "\<exists>t. (link_step X stream)\<^sup>*\<^sup>* s t \<and> n \<le> length (got t)"
proof (induction n)
  case 0
  show ?case by (intro exI [of _ s]) simp
next
  case (Suc n)
  then obtain t where t: "(link_step X stream)\<^sup>*\<^sup>* s t" "n \<le> length (got t)" by blast
  note inv = link_system.run_keeps [OF t(1) assms]
  from can_settle [OF inv, of X] obtain u where
    u: "(link_step X stream)\<^sup>*\<^sup>* t u" "settled u" "written u = written t" by blast
  note inv_u = link_system.run_keeps [OF u(1) inv]
  have "written u < acked u + unat (size_qw (ring u))"
    using u(2) inv_u link_inv_size [OF inv_u] by (simp add: settled_def link_inv_def)
  note w = link_step.fpga_write [OF this, of X stream]
  from can_settle [OF link_system.keeps [OF inv_u w], of X] obtain v where
    v: "(link_step X stream)\<^sup>*\<^sup>* (u\<lparr>ring := (ring u)\<lparr>m_buffer := (m_buffer (ring u))
        (of_nat (written u mod unat (size_qw (ring u))) := stream (written u))\<rparr>, written := Suc (written u)\<rparr>) v"
      "settled v" "written v = Suc (written u)" by auto
  have "n \<le> written t" using t(2) inv unfolding link_inv_def by linarith
  then have "Suc n \<le> length (got v)" using u v by (simp add: settled_def)
  with rtranclp_trans [OF rtranclp_trans [OF t(1) u(1)] converse_rtranclp_into_rtranclp [OF w v(1)]]
  show ?case by blast
qed

subsection \<open>Properties\<close>

text \<open>
  C6: the flow control never blocks for good: from every reachable state, whatever is written,
  announced, counted or unacknowledged, some continuation lets the host receive the first \<open>n\<close> words
  of the stream, for every \<open>n\<close>, so also more than the ring holds.
\<close>

theorem link_never_blocks:
  assumes "0 < size_qw rb" and "size_qw rb < 0x100000000" and "m_packets p = 0"
    and "link_reach X stream (link_init rb p) s"
  shows "\<exists>t. link_reach X stream s t \<and> take n (got t) = map stream [0..<n]"
proof -
  note inv = link_reach_inv [OF assms(4) link_inv_init [OF assms(1-3)]]
  from can_receive_more [OF inv, of X n] obtain t where
    t: "(link_step X stream)\<^sup>*\<^sup>* s t" "n \<le> length (got t)" by blast
  from link_system.run_keeps [OF t(1) inv] have "got t = map stream [0..<length (got t)]"
    by (simp add: link_inv_def)
  with t(2) have "take n (got t) = map stream [0..<n]" by (metis take_map take_upt add_0)
  with t(1) show ?thesis by (auto simp: link_reach_run)
qed

theorem link_never_blocks_witness:
  "\<exists>t. link_reach (always RMA2_SUCCESS 0) (\<lambda>i. 7) demo_link t \<and> take 1000 (got t) = map (\<lambda>i. 7) [0..<1000]"
  by (rule link_never_blocks [OF demo_init demo_link_reach])

end
