(* ===== verification/Sized_Link.thy ===== *)
theory Sized_Link
  imports Ring_Protocol
begin

text \<open>
  The FPGA learns the size of the trace ring only from the register \<^verbatim>\<open>TraceBufferSize\<close> that
  \<^verbatim>\<open>configure_fpga\<close> writes. \<^verbatim>\<open>Ring_Protocol\<close> lets it wrap and stop at the size the host uses; this
  theory lets it use any capacity and shows that delivery then holds exactly when the two agree.
  \<open>Configured_Link\<close> adds what the configuration writes.
\<close>

subsection \<open>An FPGA with a capacity of its own\<close>

inductive sized_step :: "'e ext \<Rightarrow> (nat \<Rightarrow> u64) \<Rightarrow> nat \<Rightarrow> link \<Rightarrow> link \<Rightarrow> bool" for X stream cap where
  sized_write: "written s < acked s + cap \<Longrightarrow>
    sized_step X stream cap s (s\<lparr>ring := (ring s)\<lparr>m_buffer := (m_buffer (ring s))
        (of_nat (written s mod cap) := stream (written s))\<rparr>,
      written := Suc (written s)\<rparr>)"
| sized_other: "link_step X stream s t \<Longrightarrow> written t = written s \<Longrightarrow> sized_step X stream cap s t"

text \<open>
  Whatever the FPGA sends from now on and however the steps interleave, the host receives a prefix of
  it. The FPGA starts at the beginning of the ring; the host starts where its ring buffer stands.
\<close>

definition delivers :: "'e ext \<Rightarrow> nat \<Rightarrow> RingBuffer \<Rightarrow> NotificationPoller \<Rightarrow> bool" where
  "delivers X cap rb p \<longleftrightarrow> (\<forall>stream s. (sized_step X stream cap)\<^sup>*\<^sup>* (link_start rb p) s \<longrightarrow>
     got s = map stream [0..<length (got s)])"

text \<open>With the size of the ring as its capacity this is the FPGA of \<^verbatim>\<open>Ring_Protocol\<close>.\<close>

lemma sized_step_link:
  "sized_step X stream (unat (size_qw (ring s))) s t \<Longrightarrow> link_step X stream s t"
  by (cases rule: sized_step.cases) (auto intro: link_step.fpga_write)

interpretation sized_system: stepped_invariant "sized_step X stream cap" "link_inv stream cap" for X stream cap
proof
  fix s t
  assume inv: "link_inv stream cap s" and step: "sized_step X stream cap s t"
  from inv have "cap = unat (size_qw (ring s))" by (simp add: link_inv_def)
  with step have "link_step X stream s t" using sized_step_link by blast
  with inv show "link_inv stream cap t" by (simp add: link_system.keeps)
qed

subsection \<open>One word through an idle link\<close>

text \<open>The idle state after \<open>n\<close> words, with the memory \<open>m\<close> and the words \<open>g\<close> received.\<close>

definition idle_link :: "RingBuffer \<Rightarrow> NotificationPoller \<Rightarrow> nat \<Rightarrow> (u64 \<Rightarrow> u64) \<Rightarrow> u64 list \<Rightarrow> link" where
  "idle_link rb p n m g =
     \<lparr>ring = (reset rb)\<lparr>m_buffer := m, m_read_index := of_nat (n mod unat (size_qw rb))\<rparr>, poller = p,
      inflight = [], written = n, announced = n, got = g, posted = n, acked = n\<rparr>"

lemma idle_link_init: "link_init rb p = idle_link rb p 0 (m_buffer rb) []"
  by (simp add: link_init_def idle_link_def reset_def)

lemma unat_of_nat_mod:
  assumes "0 < (c::u64)"
  shows "unat (of_nat (n mod unat c) :: u64) = n mod unat c"
proof -
  have "n mod unat c < unat c" using assms by (simp add: word_less_nat_alt)
  then have "n mod unat c < 2 ^ 64" using unsigned_less [of c, where 'a = nat] by simp
  then show ?thesis by (simp add: unsigned_of_nat take_bit_nat_eq_self)
qed

lemma index_of_nat_mod:
  assumes "0 < (c::u64)"
  shows "(of_nat (n mod unat c) :: u64) < c"
    and "(of_nat (n mod unat c) + 1) mod c = of_nat (Suc n mod unat c)"
proof -
  show lt: "(of_nat (n mod unat c) :: u64) < c"
    using assms by (simp add: word_less_nat_alt unat_of_nat_mod [OF assms])
  let ?r = "\<lparr>size_bt = 0, size_qw = c, rb_port = 0, rb_handle = 0, m_address = 0, m_buffer = (\<lambda>_. 0),
    m_region = 0, m_read_index = of_nat (n mod unat c), m_readable_words = 0, m_read_words = 0\<rparr>"
  have "unat ((of_nat (n mod unat c) + 1) mod c) = Suc n mod unat c"
    using advance_index(1) [of ?r] lt by (simp add: unat_of_nat_mod [OF assms] mod_Suc_eq)
  then show "(of_nat (n mod unat c) + 1) mod c = of_nat (Suc n mod unat c)"
    by (simp add: word_unat_eq_iff unat_of_nat_mod [OF assms])
qed

lemma idle_round:
  assumes "0 < size_qw rb" and "m_packets p = 0" and "0 < cap"
    and m': "m' = m(of_nat (n mod cap) := stream n)"
  shows "(sized_step X stream cap)\<^sup>*\<^sup>* (idle_link rb p n m g)
    (idle_link rb p (Suc n) m' (g @ [m' (of_nat (n mod unat (size_qw rb)))]))"
proof -
  define s0 where "s0 = idle_link rb p n m g"
  define s1 where "s1 = s0\<lparr>ring := (ring s0)\<lparr>m_buffer := m'\<rparr>, written := Suc n\<rparr>"
  define s2 where "s2 = s1\<lparr>inflight := [1], announced := Suc n\<rparr>"
  define s3 where "s3 = s2\<lparr>inflight := [], poller := p\<lparr>m_packets := 1\<rparr>\<rparr>"
  define s4 where "s4 = s3\<lparr>ring := (ring s3)\<lparr>m_readable_words := 1\<rparr>, poller := p\<rparr>"
  define s5 where "s5 = s4\<lparr>ring := advance (ring s4), got := g @ [m' (of_nat (n mod unat (size_qw rb)))]\<rparr>"
  define s6 where "s6 = s5\<lparr>ring := (ring s5)\<lparr>m_read_words := 0\<rparr>, posted := Suc n\<rparr>"
  define s7 where "s7 = s6\<lparr>acked := Suc n\<rparr>"
  note d = s0_def s1_def s2_def s3_def s4_def s5_def s6_def s7_def idle_link_def reset_def
  have p: "p\<lparr>m_packets := 0\<rparr> = p" using assms(2) by (cases p) simp
  have 1: "sized_step X stream cap s0 s1"
    using sized_step.sized_write [of s0 cap X stream] assms(3) by (simp add: d m')
  have 2: "sized_step X stream cap s1 s2"
    using link_step.fpga_announce [of s1 1 X stream] by (intro sized_step.sized_other) (simp_all add: d)
  have "link_step X stream s2 s3"
    using link_step.notification [of s2 1 "[]" "p\<lparr>m_packets := 1\<rparr>" X stream] assms(2)
    by (simp add: d dispatch_def)
  then have 3: "sized_step X stream cap s2 s3" by (rule sized_step.sized_other) (simp add: d)
  have "poll [] (ring s3) (poller s3) = Inr (True, (ring s3)\<lparr>m_readable_words := 1\<rparr>, p, [])"
    by (simp add: poll_def consume_packets_def d p)
  from link_step.host_poll [OF this, of X stream] have "link_step X stream s3 s4" by (simp add: s4_def)
  then have 4: "sized_step X stream cap s3 s4" by (rule sized_step.sized_other) (simp add: d)
  have wf: "ring_wf (ring s4)" "m_read_words (ring s4) \<noteq> num_words_to_notify"
    using index_of_nat_mod(1) [OF assms(1)] by (simp_all add: ring_wf_def d num_words_to_notify_def)
  have "receive_word X (ring s4, got s4, undefined) = Inr (advance (ring s4), got s5, undefined)"
    unfolding receive_word_eq [OF wf(1)] using wf(2) by (simp add: d)
  from link_step.host_word [OF _ this, of stream] have "link_step X stream s4 s5" by (simp add: d)
  then have 5: "sized_step X stream cap s4 s5" by (rule sized_step.sized_other) (simp add: d)
  have "acked_words [notify_call (ring s5)] = 1"
    by (subst acked_notify) (simp_all add: d num_words_to_notify_def)
  then have "link_step X stream s5 s6"
    using link_step.host_notify [of X s5 undefined "(ring s5)\<lparr>m_read_words := 0\<rparr>"
        "after X (notify_call (ring s5)) undefined" stream]
    by (simp add: notify_def s6_def) (simp add: d)
  then have 6: "sized_step X stream cap s5 s6" by (rule sized_step.sized_other) (simp add: d)
  have "link_step X stream s6 s7"
    using link_step.fpga_sees_ack [of s6 "Suc n" X stream] by (simp add: d)
  then have 7: "sized_step X stream cap s6 s7" by (rule sized_step.sized_other) (simp add: d)
  have "s7 = idle_link rb p (Suc n) m' (g @ [m' (of_nat (n mod unat (size_qw rb)))])"
    by (simp add: d advance_def index_of_nat_mod(2) [OF assms(1)])
  then show ?thesis
    using run_step [OF run_step [OF run_step [OF run_step [OF run_step
        [OF run_step [OF r_into_rtranclp [of "sized_step X stream cap", OF 1] 2] 3] 4] 5] 6] 7]
    by (simp add: s0_def)
qed

subsection \<open>Many words\<close>

text \<open>The memory after the FPGA has written \<open>n\<close> words with capacity \<open>cap\<close>.\<close>

primrec fpga_memory :: "(nat \<Rightarrow> u64) \<Rightarrow> nat \<Rightarrow> (u64 \<Rightarrow> u64) \<Rightarrow> nat \<Rightarrow> u64 \<Rightarrow> u64" where
  "fpga_memory stream cap m 0 = m"
| "fpga_memory stream cap m (Suc n) = (fpga_memory stream cap m n)(of_nat (n mod cap) := stream n)"

lemma fpga_memory_other:
  "(\<And>i. i < n \<Longrightarrow> of_nat (i mod cap) \<noteq> j) \<Longrightarrow> fpga_memory stream cap m n j = m j"
proof (induction n)
  case (Suc n)
  from Suc.prems [of n] have "of_nat (n mod cap) \<noteq> j" by simp
  moreover from Suc have "fpga_memory stream cap m n j = m j" by simp
  ultimately show ?case by (simp add: fun_upd_other)
qed simp

lemma fpga_memory_first:
  "0 < n \<Longrightarrow> (\<And>i. 0 < i \<Longrightarrow> i < n \<Longrightarrow> (of_nat (i mod cap) :: u64) \<noteq> 0) \<Longrightarrow>
   fpga_memory stream cap m n 0 = stream 0"
proof (induction n)
  case (Suc n)
  then show ?case by (cases n) simp_all
qed simp

lemma idle_rounds:
  assumes "0 < size_qw rb" and "m_packets p = 0" and "0 < cap"
  shows "\<exists>g. length g = n \<and> (sized_step X stream cap)\<^sup>*\<^sup>* (link_init rb p)
    (idle_link rb p n (fpga_memory stream cap (m_buffer rb) n) g)"
proof (induction n)
  case 0
  show ?case by (intro exI [of _ "[]"]) (simp add: idle_link_init)
next
  case (Suc n)
  then obtain g where g: "length g = n" "(sized_step X stream cap)\<^sup>*\<^sup>* (link_init rb p)
    (idle_link rb p n (fpga_memory stream cap (m_buffer rb) n) g)" by blast
  from rtranclp_trans [OF g(2) idle_round [OF assms fpga_memory.simps(2)]] g(1)
  show ?case by (metis length_append_singleton)
qed

text \<open>The word received as number \<open>n\<close> is what the FPGA's writes left at the host's position.\<close>

lemma delivers_word:
  assumes "0 < size_qw rb" and "m_packets p = 0" and "0 < cap" and "delivers X cap (reset rb) p"
  shows "fpga_memory stream cap (m_buffer rb) (Suc n) (of_nat (n mod unat (size_qw rb))) = stream n"
proof -
  let ?m = "fpga_memory stream cap (m_buffer rb) (Suc n)"
  from idle_rounds [OF assms(1-3)] obtain g where g: "length g = n"
    "(sized_step X stream cap)\<^sup>*\<^sup>* (link_init rb p) (idle_link rb p n (fpga_memory stream cap (m_buffer rb) n) g)"
    by blast
  have "(sized_step X stream cap)\<^sup>*\<^sup>* (link_init rb p)
      (idle_link rb p (Suc n) ?m (g @ [?m (of_nat (n mod unat (size_qw rb)))]))"
    using rtranclp_trans [OF g(2) idle_round [OF assms(1-3) fpga_memory.simps(2)]] .
  with assms(4) have "g @ [?m (of_nat (n mod unat (size_qw rb)))] = map stream [0..<Suc n]"
    unfolding delivers_def link_init_start idle_link_def using g(1) by fastforce
  then show ?thesis by simp
qed

lemma delivers_iff:
  assumes "0 < size_qw rb" and "size_qw rb < 0x100000000" and "m_packets p = 0" and "0 < cap"
  shows "delivers X cap (reset rb) p \<longleftrightarrow> cap = unat (size_qw rb)"
proof
  let ?size = "unat (size_qw rb)"
  have size: "0 < ?size" "?size < 0x100000000" using assms(1,2) by (simp_all add: word_less_nat_alt)
  assume d: "delivers X cap (reset rb) p"
  show "cap = ?size"
  proof (rule linorder_cases)
    assume small: "cap < ?size"
    let ?x = "m_buffer rb (of_nat cap)"
    have "(of_nat (i mod cap) :: u64) \<noteq> of_nat cap" for i
      using of_nat_mod_inject [OF size, of "i mod cap" cap] small mod_less_divisor [OF assms(4), of i] by simp
    then have "fpga_memory (\<lambda>_. ?x + 1) cap (m_buffer rb) (Suc cap) (of_nat cap) = ?x"
      by (intro fpga_memory_other)
    moreover from delivers_word [OF assms(1,3,4) d, of "\<lambda>_. ?x + 1" cap] small
    have "fpga_memory (\<lambda>_. ?x + 1) cap (m_buffer rb) (Suc cap) (of_nat cap) = ?x + 1" by simp
    ultimately show ?thesis by simp
  next
    assume large: "?size < cap"
    let ?f = "\<lambda>i. if i = (0::nat) then 0 else (1::u64)"
    have "(of_nat (i mod cap) :: u64) \<noteq> 0" if "0 < i" "i < Suc ?size" for i
    proof -
      from that large size(2) have "unat (of_nat (i mod cap) :: u64) = i"
        by (simp add: unsigned_of_nat take_bit_nat_eq_self)
      with that(1) show ?thesis by (metis less_irrefl unsigned_0)
    qed
    then have "fpga_memory ?f cap (m_buffer rb) (Suc ?size) 0 = ?f 0"
      by (intro fpga_memory_first) simp_all
    moreover from delivers_word [OF assms(1,3,4) d, of ?f ?size]
    have "fpga_memory ?f cap (m_buffer rb) (Suc ?size) 0 = ?f ?size" by simp
    ultimately show ?thesis using size(1) by simp
  qed
next
  assume cap: "cap = unat (size_qw rb)"
  show "delivers X cap (reset rb) p"
    unfolding delivers_def link_init_start [symmetric]
  proof (intro allI impI)
    fix stream s
    assume run: "(sized_step X stream cap)\<^sup>*\<^sup>* (link_init rb p) s"
    from sized_system.run_keeps [OF run] link_inv_init [OF assms(1-3)]
    show "got s = map stream [0..<length (got s)]" by (simp add: cap link_inv_def)
  qed
qed

subsection \<open>Property\<close>

text \<open>
  C7: with an FPGA that uses a capacity of its own for the ring, a host that starts with its ring buffer reset receives a prefix of the
  stream in every run, for every stream, exactly when that capacity is the size of the ring. With a
  smaller one the host reads positions the FPGA never writes, with a larger one the FPGA writes
  behind the end of the ring and the host reads old words again.
\<close>

theorem capacity_must_match:
  assumes "0 < size_qw rb" and "size_qw rb < 0x100000000" and "m_packets p = 0" and "0 < cap"
  shows "delivers X cap (reset rb) p \<longleftrightarrow> cap = unat (size_qw rb)"
  by (rule delivers_iff [OF assms])

theorem capacity_must_match_witness:
  "delivers (always RMA2_SUCCESS 0) 4 (reset demo_ring) (NotificationPoller_new 1)
   \<and> \<not> delivers (always RMA2_SUCCESS 0) 3 (reset demo_ring) (NotificationPoller_new 1)
   \<and> \<not> delivers (always RMA2_SUCCESS 0) 32 (reset demo_ring) (NotificationPoller_new 1)"
proof -
  have size: "unat (size_qw demo_ring) = 4" by (simp add: demo_ring_def small_ring_def)
  note iff = capacity_must_match [OF demo_init, where X = "always RMA2_SUCCESS 0", unfolded size]
  from iff [of 4] iff [of 3] iff [of 32] show ?thesis by simp
qed

end
