(* ===== verification/Releases.thy ===== *)
theory Releases
  imports Environment
begin

text \<open>
  Ownership, read off the log: which calls acquire a resource and which give one back, what was
  acquired (with the answers the outside gave) and given back between two worlds, computations that
  give nothing back or leave ownership alone altogether, and the contract of a destructor (a locale, so
  that the destructors of the members compose to that of the object).
\<close>

subsection \<open>The calls that give a resource back\<close>

fun is_release :: "ext_call \<Rightarrow> bool" where
  "is_release (rma2_close port) = True"
| "is_release (rma2_disconnect port handle) = True"
| "is_release (rma2_unregister port reg) = True"
| "is_release (munmap_pmap addr len) = True"
| "is_release (free_mem addr) = True"
| "is_release (close_pmap fd) = True"
| "is_release _ = False"

definition released :: "'e world \<Rightarrow> 'e world \<Rightarrow> ext_call list" where
  "released w w' = filter is_release (asked w w')"

lemma released_refl [simp]: "released w w = []"
  by (simp add: released_def)

lemma released_trans: "extends u v \<Longrightarrow> extends v w \<Longrightarrow> released u w = released u v @ released v w"
  using asked_trans [of u v w] by (simp add: released_def)

lemma released_after: "released w (after X c w) = (if is_release c then [c] else [])"
  by (simp add: released_def)

lemma released_step: "extends w v \<Longrightarrow> released w (after X c v) = released w v @ (if is_release c then [c] else [])"
proof -
  assume "extends w v"
  from released_trans [OF this extends_after] show ?thesis by (simp add: released_after)
qed

lemma extends_step: "extends w v \<Longrightarrow> extends w (after X c v)"
  by (blast intro: extends_trans)

subsection \<open>What is owned\<close>

text \<open>
  The resources of the outside. A call acquires one when the outside answers that it succeeded; a
  null pointer is no resource, and nothing is connected on a null port.
\<close>

datatype resource =
    Port u64
  | Handle u64 u64
  | Pmap_fd int
  | Mapping u64 u64
  | Memory u64
  | Region u64 u64

fun acquires :: "ext_call \<Rightarrow> ext_reply \<Rightarrow> resource list" where
  "acquires rma2_open r = (if r_status r = RMA2_SUCCESS \<and> r_out r \<noteq> 0 then [Port (r_out r)] else [])"
| "acquires (rma2_connect port node vpid flags) r =
     (if r_status r = RMA2_SUCCESS \<and> port \<noteq> 0 \<and> r_out r \<noteq> 0 then [Handle port (r_out r)] else [])"
| "acquires open_pmap r = (if r_ret r < 0 then [] else [Pmap_fd (r_ret r)])"
| "acquires (mmap_pmap fd len) r = (if r_out r = - 1 then [] else [Mapping (r_out r) len])"
| "acquires (aligned_alloc align len) r = (if r_out r = 0 then [] else [Memory (r_out r)])"
| "acquires (rma2_register port addr len) r =
     (if r_status r = RMA2_SUCCESS then [Region port (r_out r)] else [])"
| "acquires _ _ = []"

fun gives_back :: "ext_call \<Rightarrow> resource list" where
  "gives_back (rma2_close port) = [Port port]"
| "gives_back (rma2_disconnect port handle) = [Handle port handle]"
| "gives_back (rma2_unregister port reg) = [Region port reg]"
| "gives_back (munmap_pmap addr len) = [Mapping addr len]"
| "gives_back (free_mem addr) = (if addr = 0 then [] else [Memory addr])"
| "gives_back (close_pmap fd) = [Pmap_fd fd]"
| "gives_back _ = []"

fun is_acquire :: "ext_call \<Rightarrow> bool" where
  "is_acquire rma2_open = True"
| "is_acquire (rma2_connect port node vpid flags) = True"
| "is_acquire open_pmap = True"
| "is_acquire (mmap_pmap fd len) = True"
| "is_acquire (aligned_alloc align len) = True"
| "is_acquire (rma2_register port addr len) = True"
| "is_acquire _ = False"

text \<open>The answers to a sequence of calls that starts in world \<open>w\<close>, what it acquires, and what it
  gives back.\<close>

fun replay :: "'e ext \<Rightarrow> 'e world \<Rightarrow> ext_call list \<Rightarrow> 'e world" where
  "replay X w [] = w"
| "replay X w (c # cs) = replay X (after X c w) cs"

fun replies :: "'e ext \<Rightarrow> 'e world \<Rightarrow> ext_call list \<Rightarrow> (ext_call \<times> ext_reply) list" where
  "replies X w [] = []"
| "replies X w (c # cs) = (c, answer X c w) # replies X (after X c w) cs"

definition acquired :: "'e ext \<Rightarrow> 'e world \<Rightarrow> ext_call list \<Rightarrow> resource list" where
  "acquired X w cs = concat (map (\<lambda>(c, r). acquires c r) (replies X w cs))"

definition given_back :: "ext_call list \<Rightarrow> resource list" where
  "given_back cs = concat (map gives_back cs)"

lemma given_back_append [simp]: "given_back (cs @ ds) = given_back cs @ given_back ds"
  by (simp add: given_back_def)

lemma replay_append [simp]: "replay X w (cs @ ds) = replay X (replay X w cs) ds"
  by (induction cs arbitrary: w) simp_all

lemma replies_append: "replies X w (cs @ ds) = replies X w cs @ replies X (replay X w cs) ds"
  by (induction cs arbitrary: w) simp_all

lemma acquired_append: "acquired X w (cs @ ds) = acquired X w cs @ acquired X (replay X w cs) ds"
  by (simp add: acquired_def replies_append)

lemma acquired_simps [simp]:
  "acquired X w [] = []"
  "acquired X w (c # cs) = acquires c (answer X c w) @ acquired X (after X c w) cs"
  by (simp_all add: acquired_def)

lemma not_acquire: "\<not> is_acquire c \<Longrightarrow> acquires c r = []"
  by (cases c) simp_all

lemma acquired_none: "filter is_acquire cs = [] \<Longrightarrow> acquired X w cs = []"
  by (induction cs arbitrary: w) (simp_all add: not_acquire split: if_splits)

lemma not_release: "\<not> is_release c \<Longrightarrow> gives_back c = []"
  by (cases c) simp_all

lemma given_back_released: "given_back (asked w w') = given_back (released w w')"
proof -
  have "given_back cs = given_back (filter is_release cs)" for cs
    by (induction cs) (simp_all add: given_back_def not_release)
  then show ?thesis by (simp add: released_def)
qed

subsection \<open>Computations that avoid some calls\<close>

definition avoids :: "(ext_call \<Rightarrow> bool) \<Rightarrow> ('e world, 'f, 'a) comp \<Rightarrow> bool" where
  "avoids P c \<longleftrightarrow> (\<forall>w. extends w (snd (c w)) \<and> filter P (asked w (snd (c w))) = [])"

lemma avoidsD: "avoids P c \<Longrightarrow> c w = (r, w') \<Longrightarrow> extends w w' \<and> filter P (asked w w') = []"
  by (metis avoids_def snd_conv)

lemma avoids_ret: "avoids P (ret x)" and avoids_fail: "avoids P (fail f)"
  by (simp_all add: avoids_def)

lemma avoids_call: "\<not> P c \<Longrightarrow> avoids P (call X c)"
  by (simp add: avoids_def)

lemma avoids_andthen:
  assumes "avoids P c" and "\<And>x. avoids P (k x)"
  shows "avoids P (andthen c k)"
  unfolding avoids_def
proof
  fix w
  obtain r w1 where c: "c w = (r, w1)" by (cases "c w")
  from avoidsD [OF assms(1) c] have w1: "extends w w1" "filter P (asked w w1) = []" by simp_all
  show "extends w (snd (andthen c k w)) \<and> filter P (asked w (snd (andthen c k w))) = []"
  proof (cases r)
    case (Inl f)
    with c w1 show ?thesis by simp
  next
    case (Inr x)
    obtain r' w2 where k: "k x w1 = (r', w2)" by (cases "k x w1")
    from avoidsD [OF assms(2) k] w1 asked_trans [OF w1(1), of w2] c k Inr show ?thesis
      by (auto intro: extends_trans)
  qed
qed

lemma avoids_throw_on_error: "avoids P (throw_on_error E status args)"
  by (simp add: throw_on_error_def avoids_ret avoids_fail)

lemma avoids_if: "avoids P c \<Longrightarrow> avoids P d \<Longrightarrow> avoids P (if b then c else d)"
  by simp

lemmas avoids_intros = avoids_andthen avoids_throw_on_error avoids_if avoids_ret avoids_fail avoids_call

text \<open>
  A constructor releases nothing (it is \<open>quiet\<close>); what is done with an object neither acquires nor
  releases anything (it is \<open>silent\<close>).
\<close>

abbreviation quiet :: "('e world, 'f, 'a) comp \<Rightarrow> bool" where
  "quiet \<equiv> avoids is_release"

abbreviation is_owning :: "ext_call \<Rightarrow> bool" where
  "is_owning \<equiv> \<lambda>c. is_release c \<or> is_acquire c"

abbreviation silent :: "('e world, 'f, 'a) comp \<Rightarrow> bool" where
  "silent \<equiv> avoids is_owning"

definition exchanged :: "'e world \<Rightarrow> 'e world \<Rightarrow> ext_call list" where
  "exchanged w w' = filter is_owning (asked w w')"

lemma quietD: "quiet c \<Longrightarrow> c w = (r, w') \<Longrightarrow> extends w w' \<and> released w w' = []"
  unfolding released_def by (rule avoidsD)

lemma silentD: "silent c \<Longrightarrow> c w = (r, w') \<Longrightarrow> extends w w' \<and> exchanged w w' = []"
  unfolding exchanged_def by (rule avoidsD)

lemma exchanged_refl [simp]: "exchanged w w = []"
  by (simp add: exchanged_def)

lemma exchanged_after [simp]: "exchanged w (after X c w) = (if is_owning c then [c] else [])"
  by (simp add: exchanged_def)

lemma exchanged_nil_trans:
  "extends u v \<Longrightarrow> exchanged u v = [] \<Longrightarrow> extends v w \<Longrightarrow> exchanged v w = [] \<Longrightarrow>
   extends u w \<and> exchanged u w = []"
  using asked_trans [of u v w] by (auto simp: exchanged_def intro: extends_trans)

lemma exchanged_nil:
  "exchanged w w' = [] \<Longrightarrow> released w w' = []"
  "exchanged w w' = [] \<Longrightarrow> filter is_acquire (asked w w') = []"
  by (simp_all add: exchanged_def released_def filter_empty_conv)

subsection \<open>The contract of a destructor\<close>

text \<open>
  A destructor runs beside other state \<open>'p\<close> and may not return. When it returns normally it has
  given back exactly \<open>cs\<close>, in that order; it acquires nothing, and it never lets an exception out,
  the process ends instead.
\<close>

type_synonym ('p, 'e) dtor = "'p \<times> 'e world \<Rightarrow> ((failure + unit) \<times> 'p \<times> 'e world) option"

locale destructor =
  fixes d :: "('p, 'e) dtor" and cs :: "ext_call list"
  assumes appends: "d s = Some (r, s') \<Longrightarrow> extends (snd s) (snd s')"
    and acquires_nothing: "d s = Some (r, s') \<Longrightarrow> filter is_acquire (asked (snd s) (snd s')) = []"
    and returns: "d s = Some (Inr u, s') \<Longrightarrow> released (snd s) (snd s') = cs"
    and no_exception: "d s = Some (Inl f, s') \<Longrightarrow> f = Terminate"
begin

lemma outcome: "d s = Some (r, s') \<Longrightarrow> r = Inr () \<or> r = Inl Terminate"
  using no_exception by (cases r) auto

lemma gives_back_nothing_else:
  "d s = Some (Inr u, s') \<Longrightarrow> count_list (released (snd s) (snd s')) c = count_list cs c"
  by (simp add: returns)

end

fun destroy :: "('p, 'e) dtor list \<Rightarrow> ('p, 'e) dtor" where
  "destroy [] s = Some (Inr (), s)"
| "destroy (d # ds) s =
     (case d s of
        None \<Rightarrow> None
      | Some (Inl f, s') \<Rightarrow> Some (Inl f, s')
      | Some (Inr _, s') \<Rightarrow> destroy ds s')"

text \<open>Destructors in sequence give back what they give back one by one.\<close>

lemma destructor_Nil: "destructor (destroy []) []"
  by unfold_locales auto

lemma destructor_Cons:
  assumes one: "destructor d cs" and rest: "destructor (destroy ds) css"
  shows "destructor (destroy (d # ds)) (cs @ css)"
proof
  fix s r s'
  assume "destroy (d # ds) s = Some (r, s')"
  then consider f where "d s = Some (Inl f, s')" | t where "d s = Some (Inr (), t)" "destroy ds t = Some (r, s')"
    by (auto split: option.splits sum.splits)
  then show "extends (snd s) (snd s')"
  proof cases
    case 1
    then show ?thesis by (rule destructor.appends [OF one])
  next
    case 2
    from destructor.appends [OF one this(1)] destructor.appends [OF rest this(2)]
    show ?thesis by (rule extends_trans)
  qed
next
  fix s r s'
  assume "destroy (d # ds) s = Some (r, s')"
  then consider f where "d s = Some (Inl f, s')" | t where "d s = Some (Inr (), t)" "destroy ds t = Some (r, s')"
    by (auto split: option.splits sum.splits)
  then show "filter is_acquire (asked (snd s) (snd s')) = []"
  proof cases
    case 1
    then show ?thesis by (rule destructor.acquires_nothing [OF one])
  next
    case 2
    from asked_trans [OF destructor.appends [OF one 2(1)] destructor.appends [OF rest 2(2)]]
    show ?thesis
      by (simp add: destructor.acquires_nothing [OF one 2(1)] destructor.acquires_nothing [OF rest 2(2)])
  qed
next
  fix s u s'
  assume "destroy (d # ds) s = Some (Inr u, s')"
  then obtain t where t: "d s = Some (Inr (), t)" "destroy ds t = Some (Inr u, s')"
    by (auto split: option.splits sum.splits)
  show "released (snd s) (snd s') = cs @ css"
    using released_trans [OF destructor.appends [OF one t(1)] destructor.appends [OF rest t(2)]]
    by (simp add: destructor.returns [OF one t(1)] destructor.returns [OF rest t(2)])
next
  fix s f s'
  assume "destroy (d # ds) s = Some (Inl f, s')"
  then show "f = Terminate"
    by (auto split: option.splits sum.splits
        dest: destructor.no_exception [OF one] destructor.no_exception [OF rest])
qed

end
