(* ===== verification/Connection.thy ===== *)
theory Connection
  imports Releases
begin

text \<open>
  \<^verbatim>\<open>Connection\<close> of \<^verbatim>\<open>include/nhtl-extoll/connection.h\<close> and \<^verbatim>\<open>src/nhtl-extoll/connection.cpp\<close>:
  one librma2 port and the handle connected on it. The destructor drains the notifications that
  are left; that loop ends only when librma2 stops answering \<^verbatim>\<open>RMA2_SUCCESS\<close>, so it is a
  \<^theory_text>\<open>partial_function\<close>, and not returning is the value \<^term>\<open>None\<close>. The diagnostic output is
  left out, the calls it makes are not.
\<close>

subsection \<open>State and construction\<close>

record Connection =
  m_port :: u64
  m_handle :: u64
  m_vpid :: u16
  m_type :: "conn_flag list"

definition rra_connection :: "conn_flag list" where
  "rra_connection = [RMA2_CONN_PHYSICAL, RMA2_CONN_RRA]"

definition conn_type :: "bool \<Rightarrow> conn_flag list" where
  "conn_type rra = (if rra then rra_connection else [RMA2_CONN_PHYSICAL])"

definition Connection_new :: "'e ext \<Rightarrow> u16 \<Rightarrow> bool \<Rightarrow> ('e world, failure, Connection) comp" where
  "Connection_new X node rra =
     andthen (call X rma2_open) (\<lambda>port.
     andthen (throw_on_error ConnectionFailed (r_status port) ''Failed to open port!'') (\<lambda>_.
     andthen (call X (rma2_get_vpid (r_out port))) (\<lambda>vpid.
     andthen (call X (rma2_connect (r_out port) node (ucast (r_out vpid)) (conn_type rra))) (\<lambda>handle.
     andthen (throw_on_error ConnectionFailed (r_status handle) ''Failed to connect!'') (\<lambda>_.
     ret \<lparr>m_port = r_out port, m_handle = r_out handle, m_vpid = ucast (r_out vpid),
          m_type = conn_type rra\<rparr>)))))"

definition get_port :: "Connection \<Rightarrow> u64" where
  "get_port c = m_port c"

definition get_handle :: "Connection \<Rightarrow> u64" where
  "get_handle c = m_handle c"

definition get_vpid :: "Connection \<Rightarrow> u16" where
  "get_vpid c = m_vpid c"

text \<open>The defaulted move constructor copies the members: the new object and what is left of the old one.\<close>

definition Connection_move :: "Connection \<Rightarrow> Connection \<times> Connection" where
  "Connection_move c = (c, c)"

subsection \<open>Destruction\<close>

text \<open>One turn of the draining loop: three reads for the diagnostics, the release, the next probe.\<close>

definition drain_turn :: "u64 \<Rightarrow> u64 \<Rightarrow> ext_call list" where
  "drain_turn port noti =
     [rma2_noti_get_notification_type noti, rma2_noti_get_remote_vpid noti,
      rma2_noti_get_remote_nodeid noti, rma2_noti_free port noti, rma2_noti_probe port]"

fun ask_all :: "'e ext \<Rightarrow> ext_call list \<Rightarrow> 'e world \<Rightarrow> ext_reply \<Rightarrow> ext_reply \<times> 'e world" where
  "ask_all X [] w r = (r, w)"
| "ask_all X (c # cs) w r = ask_all X cs (after X c w) (answer X c w)"

partial_function (option) drain_notifications ::
  "'e ext \<Rightarrow> u64 \<Rightarrow> ext_reply \<Rightarrow> nat \<Rightarrow> 'e world \<Rightarrow> (rma2_error \<times> nat \<times> 'e world) option" where
  "drain_notifications X port probe ignored w =
     (if r_status probe = RMA2_SUCCESS
      then (case ask_all X (drain_turn port (r_out probe)) w probe of
              (probe', w') \<Rightarrow> drain_notifications X port probe' (Suc ignored) w')
      else Some (r_status probe, ignored, w))"

text \<open>
  The destructor. An exception that leaves it ends the process, and so does the failed
  assertion.
\<close>

definition Connection_delete ::
  "'e ext \<Rightarrow> Connection \<Rightarrow> 'e world \<Rightarrow> ((failure + unit) \<times> 'e world) option" where
  "Connection_delete X c w =
     (if m_port c = 0
      then Some (if m_handle c = 0 then Inr () else Inl Terminate, w)
      else if m_handle c \<noteq> 0
      then (case drain_notifications X (m_port c) (answer X (rma2_noti_probe (m_port c)) w) 0
                   (after X (rma2_noti_probe (m_port c)) w) of
              None \<Rightarrow> None
            | Some (status, ignored, w1) \<Rightarrow>
                if status = RMA2_ERR_INV_PORT then Some (Inl Terminate, w1)
                else Some (Inr (), after X (rma2_close (m_port c))
                             (after X (rma2_disconnect (m_port c) (m_handle c)) w1)))
      else Some (Inr (), after X (rma2_close (m_port c)) w))"

lemma ask_all_log: "ask_all X cs w r = (r', w') \<Longrightarrow> extends w w' \<and> asked w w' = cs"
proof (induction X cs w r rule: ask_all.induct)
  case (2 X c cs w r)
  from 2 have ih: "extends (after X c w) w'" "asked (after X c w) w' = cs" by simp_all
  with asked_trans [OF extends_after ih(1)] show ?case by (auto intro: extends_trans)
qed simp

text \<open>Draining releases notifications only, each exactly once, and stops on the first other status.\<close>

fun drained_log :: "u64 \<Rightarrow> u64 list \<Rightarrow> ext_call list" where
  "drained_log port [] = []"
| "drained_log port (n # ns) = drain_turn port n @ drained_log port ns"

lemma drained_log_keeps: "filter is_release (drained_log port ns) = []" "filter is_acquire (drained_log port ns) = []"
  by (induction port ns rule: drained_log.induct) (simp_all add: drain_turn_def)

text \<open>The answers to the probes among a sequence of calls.\<close>

fun is_probe :: "ext_call \<Rightarrow> bool" where
  "is_probe (rma2_noti_probe port) = True"
| "is_probe _ = False"

definition probe_replies :: "'e ext \<Rightarrow> 'e world \<Rightarrow> ext_call list \<Rightarrow> ext_reply list" where
  "probe_replies X w cs = map snd (filter (\<lambda>(c, r). is_probe c) (replies X w cs))"

lemma probe_replies_Cons:
  "probe_replies X w (c # cs) = (if is_probe c then [answer X c w] else []) @ probe_replies X (after X c w) cs"
  by (simp add: probe_replies_def)

lemma probe_replies_append:
  "probe_replies X w (cs @ ds) = probe_replies X w cs @ probe_replies X (replay X w cs) ds"
  by (simp add: probe_replies_def replies_append)

lemma probe_replies_turn:
  assumes "ask_all X (drain_turn port n) w r = (probe', v)"
  shows "replay X w (drain_turn port n) = v \<and> probe_replies X w (drain_turn port n) = [probe']"
  using assms by (auto simp: drain_turn_def probe_replies_def)

text \<open>
  What a run of the loop has found when \<open>probe\<close> was the probe before it: every answer but the last
  is a notification, the last is not, and the calls are those of one turn for each notification.
\<close>

definition drains ::
  "'e ext \<Rightarrow> u64 \<Rightarrow> ext_reply \<Rightarrow> 'e world \<Rightarrow> 'e world \<Rightarrow> ext_reply list \<Rightarrow> ext_reply \<Rightarrow> bool" where
  "drains X port probe w v found final \<longleftrightarrow> extends w v
     \<and> asked w v = drained_log port (map r_out found)
     \<and> replay X w (drained_log port (map r_out found)) = v
     \<and> probe # probe_replies X w (drained_log port (map r_out found)) = found @ [final]
     \<and> map r_status found = replicate (length found) RMA2_SUCCESS \<and> r_status final \<noteq> RMA2_SUCCESS"

lemma drains_turn:
  assumes "ask_all X (drain_turn port (r_out probe)) w probe = (probe', u)"
    and "r_status probe = RMA2_SUCCESS" and "drains X port probe' u v found final"
  shows "drains X port probe w v (probe # found) final"
proof -
  from ask_all_log [OF assms(1)] have wu: "extends w u" "asked w u = drain_turn port (r_out probe)" by simp_all
  from assms(3) have uv: "extends u v" by (simp add: drains_def)
  have "asked w v = drain_turn port (r_out probe) @ asked u v"
    using asked_trans [OF wu(1) uv] wu(2) by simp
  with assms(2,3) probe_replies_turn [OF assms(1)] extends_trans [OF wu(1) uv] show ?thesis
    by (simp add: drains_def probe_replies_append)
qed

lemma drain_notifications_log:
  assumes "drain_notifications X port probe ignored w = Some r"
  shows "\<exists>found final. drains X port probe w (snd (snd r)) found final \<and> fst r = r_status final
    \<and> fst (snd r) = ignored + length found"
proof (rule drain_notifications.raw_induct [OF _ assms,
      where P = "\<lambda>X port probe ignored w r. \<exists>found final. drains X port probe w (snd (snd r)) found final
        \<and> fst r = r_status final \<and> fst (snd r) = ignored + length found"])
  fix D :: "'a ext \<Rightarrow> u64 \<Rightarrow> ext_reply \<Rightarrow> nat \<Rightarrow> 'a world \<Rightarrow> (rma2_error \<times> nat \<times> 'a world) option"
    and X port probe ignored w r
  assume IH: "\<And>X port probe ignored w r. D X port probe ignored w = Some r \<Longrightarrow>
      \<exists>found final. drains X port probe w (snd (snd r)) found final \<and> fst r = r_status final
        \<and> fst (snd r) = ignored + length found"
    and eq: "(if r_status probe = RMA2_SUCCESS
      then (case ask_all X (drain_turn port (r_out probe)) w probe of
              (probe', w') \<Rightarrow> D X port probe' (Suc ignored) w')
      else Some (r_status probe, ignored, w)) = Some r"
  show "\<exists>found final. drains X port probe w (snd (snd r)) found final \<and> fst r = r_status final
        \<and> fst (snd r) = ignored + length found"
  proof (cases "r_status probe = RMA2_SUCCESS")
    case False
    then have "drains X port probe w w [] probe" by (simp add: drains_def probe_replies_def)
    with False eq show ?thesis by auto
  next
    case True
    obtain probe' u where a: "ask_all X (drain_turn port (r_out probe)) w probe = (probe', u)"
      by (cases "ask_all X (drain_turn port (r_out probe)) w probe")
    with eq True have "D X port probe' (Suc ignored) u = Some r" by simp
    from IH [OF this] obtain found final where "drains X port probe' u (snd (snd r)) found final"
      and r: "fst r = r_status final" "fst (snd r) = Suc ignored + length found" by blast
    with drains_turn [OF a True] have "drains X port probe w (snd (snd r)) (probe # found) final" by blast
    with r show ?thesis by (intro exI [of _ "probe # found"] exI [of _ final]) simp
  qed
qed

lemma quiet_Connection_new: "quiet (Connection_new X node rra)"
  unfolding Connection_new_def by (intro avoids_intros) simp_all

text \<open>
  What librma2 documents of its notification queue: a probe finds a notification only while one is
  pending, freeing it removes it, and nothing else adds one. Under it the draining loop ends.
\<close>

definition queue_of :: "'e ext \<Rightarrow> u64 \<Rightarrow> ('e \<Rightarrow> nat) \<Rightarrow> bool" where
  "queue_of X port pending \<longleftrightarrow>
     (\<forall>e m. r_status (fst (X (rma2_noti_probe port) e m)) = RMA2_SUCCESS \<longrightarrow> 0 < pending e)
     \<and> (\<forall>c e m. pending (fst (snd (X c e m)))
          = (case c of rma2_noti_free p n \<Rightarrow> pending e - (if p = port then 1 else 0) | _ \<Rightarrow> pending e))"

lemma w_env_after: "w_env (after X c w) = fst (snd (X c (w_env w) (w_mem w)))"
  by (simp add: after_def ask_def split: prod.splits)

lemma answer_eq: "answer X c w = fst (X c (w_env w) (w_mem w))"
  by (simp add: answer_def ask_def split: prod.splits)

lemma queue_of_after:
  "queue_of X port pending \<Longrightarrow> pending (w_env (after X c w))
     = (case c of rma2_noti_free p n \<Rightarrow> pending (w_env w) - (if p = port then 1 else 0)
        | _ \<Rightarrow> pending (w_env w))"
  by (simp add: queue_of_def w_env_after)

lemma queue_of_probe:
  assumes "queue_of X port pending" and "r_status (answer X (rma2_noti_probe port) w) = RMA2_SUCCESS"
  shows "0 < pending (w_env (after X (rma2_noti_probe port) w))"
proof -
  have "pending (w_env (after X (rma2_noti_probe port) w)) = pending (w_env w)"
    by (simp add: queue_of_after [OF assms(1)])
  moreover from assms have "0 < pending (w_env w)"
    unfolding queue_of_def answer_eq by blast
  ultimately show ?thesis by simp
qed

lemma drain_notifications_returns:
  assumes "queue_of X port pending"
    and "r_status probe = RMA2_SUCCESS \<Longrightarrow> 0 < pending (w_env w)"
  shows "\<exists>r. drain_notifications X port probe ignored w = Some r"
  using assms(2)
proof (induction "pending (w_env w)" arbitrary: probe ignored w rule: less_induct)
  case less
  show ?case
  proof (cases "r_status probe = RMA2_SUCCESS")
    case False
    then show ?thesis by (subst drain_notifications.simps) simp
  next
    case True
    obtain probe' v where turn: "ask_all X (drain_turn port (r_out probe)) w probe = (probe', v)"
      by (cases "ask_all X (drain_turn port (r_out probe)) w probe")
    from turn obtain u where v: "v = after X (rma2_noti_probe port) u"
      and probe': "probe' = answer X (rma2_noti_probe port) u"
      and u: "pending (w_env u) = pending (w_env w) - 1"
      by (auto simp: drain_turn_def queue_of_after [OF assms(1)])
    have pv: "pending (w_env v) = pending (w_env w) - 1"
      by (simp add: v u queue_of_after [OF assms(1)])
    have "\<exists>r. drain_notifications X port probe' (Suc ignored) v = Some r"
    proof (rule less.hyps)
      show "pending (w_env v) < pending (w_env w)"
        using less.prems [OF True] by (simp add: pv)
      show "r_status probe' = RMA2_SUCCESS \<Longrightarrow> 0 < pending (w_env v)"
        unfolding v probe' by (rule queue_of_probe [OF assms(1)])
    qed
    with True turn show ?thesis by (subst drain_notifications.simps) simp
  qed
qed

text \<open>What the destructor gives back when it returns.\<close>

definition conn_closing :: "Connection \<Rightarrow> ext_call list" where
  "conn_closing c = [rma2_disconnect (m_port c) (m_handle c), rma2_close (m_port c)]"

lemma Connection_delete_log:
  assumes "Connection_delete X c w = Some (r, w')" and "m_port c \<noteq> 0" and "m_handle c \<noteq> 0"
  shows "extends w w' \<and> (\<exists>found final.
      probe_replies X w (asked w w') = found @ [final]
    \<and> map r_status found = replicate (length found) RMA2_SUCCESS \<and> r_status final \<noteq> RMA2_SUCCESS
    \<and> asked w w' = rma2_noti_probe (m_port c) # drained_log (m_port c) (map r_out found)
        @ (if r_status final = RMA2_ERR_INV_PORT then [] else conn_closing c)
    \<and> r = (if r_status final = RMA2_ERR_INV_PORT then Inl Terminate else Inr ()))"
proof -
  let ?p = "rma2_noti_probe (m_port c)"
  let ?d = "rma2_disconnect (m_port c) (m_handle c)"
  let ?v = "after X ?p w"
  from assms obtain status ignored w1 where
    d: "drain_notifications X (m_port c) (answer X ?p w) 0 ?v = Some (status, ignored, w1)"
    and r: "(r, w') = (if status = RMA2_ERR_INV_PORT then (Inl Terminate, w1)
      else (Inr (), after X (rma2_close (m_port c)) (after X ?d w1)))"
    by (auto simp: Connection_delete_def split: option.splits if_splits)
  from drain_notifications_log [OF d] obtain found final where
    dr: "drains X (m_port c) (answer X ?p w) ?v w1 found final" and status: "status = r_status final" by auto
  have w1: "extends w w1" "asked w w1 = ?p # drained_log (m_port c) (map r_out found)"
    using dr asked_trans [of w ?v w1] extends_trans [of w ?v w1] by (auto simp: drains_def)
  have found: "probe_replies X w (asked w w1) = found @ [final]"
    using dr by (simp add: drains_def probe_replies_Cons w1(2))
  have fin: "asked w (after X (rma2_close (m_port c)) (after X ?d w1)) = asked w w1 @ conn_closing c"
    using asked_trans [OF extends_step [OF w1(1), of X ?d] extends_after, of X "rma2_close (m_port c)"]
      asked_trans [OF w1(1) extends_after, of X ?d] by (simp add: conn_closing_def)
  have no_probe: "probe_replies X v (conn_closing c) = []" for v
    by (simp add: conn_closing_def probe_replies_def)
  have "probe_replies X w (asked w w') = found @ [final]"
    using r fin found no_probe by (cases "status = RMA2_ERR_INV_PORT") (simp_all add: probe_replies_append)
  moreover have "extends w w'" using r w1(1) by (auto intro: extends_step split: if_splits)
  moreover have "asked w w' = ?p # drained_log (m_port c) (map r_out found)
        @ (if r_status final = RMA2_ERR_INV_PORT then [] else conn_closing c)"
    and "r = (if r_status final = RMA2_ERR_INV_PORT then Inl Terminate else Inr ())"
    using r w1(2) fin status by (auto split: if_splits)
  ultimately show ?thesis using dr by (auto simp: drains_def)
qed

text \<open>The destructor meets the contract, whatever the state of the connection.\<close>

definition conn_releases :: "Connection \<Rightarrow> ext_call list" where
  "conn_releases c =
     (if m_port c = 0 then []
      else (if m_handle c = 0 then [] else [rma2_disconnect (m_port c) (m_handle c)]) @ [rma2_close (m_port c)])"

definition del_connection :: "'e ext \<Rightarrow> Connection \<Rightarrow> ('p, 'e) dtor" where
  "del_connection X c = (\<lambda>(p, w).
     case Connection_delete X c w of None \<Rightarrow> None | Some (r, w') \<Rightarrow> Some (r, (p, w')))"

lemma Connection_delete_contract:
  assumes "Connection_delete X c w = Some (r, w')"
  shows "extends w w' \<and> (r = Inr () \<and> released w w' = conn_releases c \<or> r = Inl Terminate)
    \<and> filter is_acquire (asked w w') = []"
proof (cases "m_port c = 0 \<or> m_handle c = 0")
  case True
  with assms show ?thesis
    by (auto simp: Connection_delete_def conn_releases_def released_after split: if_splits)
next
  case False
  then have "m_port c \<noteq> 0" "m_handle c \<noteq> 0" by simp_all
  note log = Connection_delete_log [OF assms this]
  then have "extends w w'" by simp
  moreover from log obtain found final where "probe_replies X w (asked w w') = found @ [final]"
    "map r_status found = replicate (length found) RMA2_SUCCESS" "r_status final \<noteq> RMA2_SUCCESS"
    and "asked w w' = rma2_noti_probe (m_port c) # drained_log (m_port c) (map r_out found)
        @ (if r_status final = RMA2_ERR_INV_PORT then [] else conn_closing c)"
    and "r = (if r_status final = RMA2_ERR_INV_PORT then Inl Terminate else Inr ())" by blast
  ultimately show ?thesis using False
    by (simp add: conn_releases_def conn_closing_def released_def drained_log_keeps)
qed

lemma del_connection_delete:
  "del_connection X c s = Some (r, s') \<Longrightarrow> Connection_delete X c (snd s) = Some (r, snd s')"
  by (cases s) (auto simp: del_connection_def split: option.splits)

interpretation conn_dtor: destructor "del_connection X c" "conn_releases c" for X c
  by unfold_locales (auto dest!: del_connection_delete Connection_delete_contract)

subsection \<open>Properties of a connection\<close>

text \<open>
  Construction opens a port, asks for the vpid and connects, with the RRA bit set exactly when
  asked for. If opening fails nothing more is asked; if connecting fails the constructor throws
  with the port it has opened left open: no construction ever releases anything, and the
  destructor of an object that was never constructed does not run.
\<close>

theorem Connection_new_result:
  "let w1 = after X rma2_open w;
       port = r_out (answer X rma2_open w);
       vpid = ucast (r_out (answer X (rma2_get_vpid port) w1)) :: u16;
       connect = rma2_connect port node vpid
         (if rra then [RMA2_CONN_PHYSICAL, RMA2_CONN_RRA] else [RMA2_CONN_PHYSICAL]);
       w2 = after X (rma2_get_vpid port) w1
   in \<exists>r w'. Connection_new X node rra w = (r, w') \<and> released w w' = []
    \<and> (if r_status (answer X rma2_open w) \<noteq> RMA2_SUCCESS
       then r = Inl (Throw (ConnectionFailed ''Failed to open port!'')) \<and> asked w w' = [rma2_open]
       else asked w w' = [rma2_open, rma2_get_vpid port, connect]
         \<and> r = (if r_status (answer X connect w2) \<noteq> RMA2_SUCCESS
                then Inl (Throw (ConnectionFailed ''Failed to connect!''))
                else Inr \<lparr>m_port = port, m_handle = r_out (answer X connect w2), m_vpid = vpid,
                          m_type = conn_type rra\<rparr>))"
proof (cases "r_status (answer X rma2_open w) = RMA2_SUCCESS")
  case True
  then show ?thesis
    by (cases rra)
      (simp_all add: Connection_new_def conn_type_def rra_connection_def released_def asked_def
        throw_on_error_def Let_def)
next
  case False
  then show ?thesis
    by (simp add: Connection_new_def released_def asked_def Let_def)
qed

text \<open>
  C27: the destructor of a connection probes until librma2 no longer answers with a notification.
  It frees exactly the notifications these probes found, each once and after reading it. Then it
  disconnects and closes, in that order, and returns - unless the last probe reported an invalid
  port: then, and only then, the exception leaves the destructor, the process terminates, and the
  handle and the port are not given back.
\<close>

theorem Connection_delete_drains_and_closes:
  assumes "Connection_delete X c w = Some (r, w')" and "m_port c \<noteq> 0" and "m_handle c \<noteq> 0"
  shows "\<exists>found final.
      probe_replies X w (asked w w') = found @ [final]
    \<and> map r_status found = replicate (length found) RMA2_SUCCESS \<and> r_status final \<noteq> RMA2_SUCCESS
    \<and> asked w w' = rma2_noti_probe (m_port c) # drained_log (m_port c) (map r_out found)
        @ (if r_status final = RMA2_ERR_INV_PORT then []
           else [rma2_disconnect (m_port c) (m_handle c), rma2_close (m_port c)])
    \<and> r = (if r_status final = RMA2_ERR_INV_PORT then Inl Terminate else Inr ())
    \<and> released w w' = (if r_status final = RMA2_ERR_INV_PORT then []
        else [rma2_disconnect (m_port c) (m_handle c), rma2_close (m_port c)])"
proof -
  from Connection_delete_log [OF assms] obtain found final where d: "probe_replies X w (asked w w') = found @ [final]"
    "map r_status found = replicate (length found) RMA2_SUCCESS" "r_status final \<noteq> RMA2_SUCCESS"
    "asked w w' = rma2_noti_probe (m_port c) # drained_log (m_port c) (map r_out found)
        @ (if r_status final = RMA2_ERR_INV_PORT then [] else conn_closing c)"
    "r = (if r_status final = RMA2_ERR_INV_PORT then Inl Terminate else Inr ())" by blast
  have "released w w' = (if r_status final = RMA2_ERR_INV_PORT then [] else conn_closing c)"
    by (simp add: released_def d(4) drained_log_keeps conn_closing_def)
  with d show ?thesis unfolding conn_closing_def by blast
qed

definition conn7 :: Connection where
  "conn7 = \<lparr>m_port = 7, m_handle = 9, m_vpid = 1, m_type = rra_connection\<rparr>"

text \<open>A librma2 with a queue of pending notifications, for the witnesses.\<close>

fun queue_ext :: "nat ext" where
  "queue_ext (rma2_noti_probe p) e m =
     (\<lparr>r_status = (if 0 < e then RMA2_SUCCESS else RMA2_NO_NOTI), r_ret = 0, r_out = of_nat e\<rparr>, e, m)"
| "queue_ext (rma2_noti_free p n) e m =
     (\<lparr>r_status = RMA2_SUCCESS, r_ret = 0, r_out = 0\<rparr>, e - (if p = 7 then 1 else 0), m)"
| "queue_ext c e m = (\<lparr>r_status = RMA2_SUCCESS, r_ret = 4096, r_out = 7\<rparr>, e, m)"

lemma queue_ext_queue: "queue_of queue_ext 7 id"
  unfolding queue_of_def
proof (intro conjI allI impI)
  fix e m
  assume "r_status (fst (queue_ext (rma2_noti_probe 7) e m)) = RMA2_SUCCESS"
  then show "0 < id e" by (simp split: if_splits)
next
  fix c e m
  show "id (fst (snd (queue_ext c e m)))
      = (case c of rma2_noti_free p n \<Rightarrow> id e - (if p = 7 then 1 else 0) | _ \<Rightarrow> id e)"
    by (cases c) simp_all
qed

lemma queue_ext_run:
  "Connection_delete queue_ext conn7 \<lparr>w_env = 1, w_mem = (\<lambda>_. 0), w_log = []\<rparr>
   = Some (Inr (), \<lparr>w_env = 0, w_mem = (\<lambda>_. 0),
       w_log = rma2_noti_probe 7 # drain_turn 7 1 @ [rma2_disconnect 7 9, rma2_close 7]\<rparr>)"
  by (simp add: Connection_delete_def conn7_def drain_notifications.simps drain_turn_def after_def
      answer_def ask_def)

theorem Connection_delete_drains_and_closes_witness:
  "\<exists>found final. map r_status found = [RMA2_SUCCESS] \<and> map r_out found = [1] \<and> r_status final = RMA2_NO_NOTI
    \<and> probe_replies queue_ext \<lparr>w_env = 1, w_mem = (\<lambda>_. 0), w_log = []\<rparr>
        (rma2_noti_probe 7 # drain_turn 7 1 @ [rma2_disconnect 7 9, rma2_close 7]) = found @ [final]"
proof -
  let ?w = "\<lparr>w_env = 1, w_mem = (\<lambda>_. 0), w_log = []\<rparr> :: nat world"
  let ?cs = "rma2_noti_probe 7 # drain_turn 7 1 @ [rma2_disconnect 7 9, rma2_close 7]"
  from Connection_delete_drains_and_closes [OF queue_ext_run] obtain found final where
    d: "probe_replies queue_ext ?w ?cs = found @ [final]" "map r_status found = replicate (length found) RMA2_SUCCESS"
    by (auto simp: conn7_def asked_def)
  have "map r_status (probe_replies queue_ext ?w ?cs) = [RMA2_SUCCESS, RMA2_NO_NOTI]"
    "map r_out (probe_replies queue_ext ?w ?cs) = [1, 0]"
    by (simp_all add: probe_replies_def drain_turn_def after_def answer_def ask_def)
  then have "map r_status found = [RMA2_SUCCESS]" "map r_out found = [1]" "r_status final = RMA2_NO_NOTI"
    unfolding d(1) by (simp_all add: append_eq_Cons_conv)
  with d(1) show ?thesis by (intro exI [of _ found] exI [of _ final] conjI)
qed

text \<open>
  Under the documented behaviour of the notification queue the destructor returns, however
  many notifications are pending.
\<close>

theorem Connection_delete_returns:
  assumes "queue_of X (m_port c) pending"
  shows "\<exists>r. Connection_delete X c w = Some r"
proof -
  let ?p = "rma2_noti_probe (m_port c)"
  from drain_notifications_returns [OF assms queue_of_probe [OF assms]]
  obtain r where "drain_notifications X (m_port c) (answer X ?p w) 0 (after X ?p w) = Some r"
    by blast
  then show ?thesis
    by (cases r) (simp add: Connection_delete_def)
qed

theorem Connection_delete_returns_witness:
  "\<exists>r. Connection_delete queue_ext conn7 \<lparr>w_env = 1000, w_mem = (\<lambda>_. 0), w_log = []\<rparr> = Some r"
  by (rule Connection_delete_returns [of _ _ id]) (simp add: conn7_def queue_ext_queue)

end
