(* ===== verification/Physical_Buffer.thy ===== *)
theory Physical_Buffer
  imports Environment
begin

text \<open>
  \<^verbatim>\<open>PhysicalBuffer\<close> of \<^verbatim>\<open>include/nhtl-extoll/buffer.h\<close> and \<^verbatim>\<open>src/nhtl-extoll/buffer.cpp\<close>: one
  mapped region of 1024 pages, the first page for RRA responses, the rest the send buffer. Its
  contents are \<open>w_mem\<close> of the world, because the card writes them too. An access outside the
  \<^verbatim>\<open>std::array\<close> is undefined behaviour and is a failure of the model.
\<close>

subsection \<open>Constants\<close>

definition page_size_bt :: u64 where
  "page_size_bt = 4096"

definition quad_word_size_bt :: u64 where
  "quad_word_size_bt = 8"

definition page_size_qw :: u64 where
  "page_size_qw = page_size_bt div quad_word_size_bt"

definition pages :: u64 where
  "pages = 1024"

text \<open>The length of the \<^verbatim>\<open>std::array\<close>.\<close>

definition buffer_words :: u64 where
  "buffer_words = pages * page_size_qw"

lemmas buffer_consts = page_size_bt_def quad_word_size_bt_def page_size_qw_def pages_def
  buffer_words_def

text \<open>\<^verbatim>\<open>MAP_FAILED\<close> is the pointer with all bits set.\<close>

definition MAP_FAILED :: u64 where
  "MAP_FAILED = - 1"

subsection \<open>Construction and destruction\<close>

record PhysicalBuffer =
  pb_buffer :: u64
  m_physical_address :: u64

text \<open>\<^verbatim>\<open>if (ret < 0) throw std::runtime_error(msg)\<close>.\<close>

definition throw_if_negative :: "ext_reply \<Rightarrow> string \<Rightarrow> ('s, failure, unit) comp" where
  "throw_if_negative r msg = (if r_ret r < 0 then fail (Throw (runtime_error msg)) else ret ())"

text \<open>The result of \<^verbatim>\<open>sysconf\<close>, a \<^verbatim>\<open>long\<close>, is stored in an \<^verbatim>\<open>int\<close>.\<close>

definition PhysicalBuffer_new :: "'e ext \<Rightarrow> ('e world, failure, PhysicalBuffer) comp" where
  "PhysicalBuffer_new X =
     andthen (call X sysconf_pagesize) (\<lambda>sz.
     if signed_take_bit 31 (r_ret sz) \<noteq> 4096
     then fail (Throw (runtime_error ''Page size must equal 4096B.''))
     else
     andthen (call X open_pmap) (\<lambda>fd.
     andthen (throw_if_negative fd ''Failed to open /dev/extoll/pmap.'') (\<lambda>_.
     andthen (call X (ioctl_pmap_set_type (r_ret fd) 0)) (\<lambda>st.
     andthen (throw_if_negative st ''Failed to set type to kernel allocated memory.'') (\<lambda>_.
     andthen (call X (ioctl_pmap_set_size (r_ret fd) (pages * 4096))) (\<lambda>ss.
     andthen (throw_if_negative ss ''Failed to set buffer size.'') (\<lambda>_.
     andthen (call X (mmap_pmap (r_ret fd) (pages * 4096))) (\<lambda>map.
     if r_out map = MAP_FAILED
     then fail (Throw (runtime_error ''Failed to mmap buffer.''))
     else
     andthen (call X (ioctl_pmap_get_paddr (r_ret fd))) (\<lambda>pa.
     andthen (throw_if_negative pa ''Failed to acquire physical address of buffer.'') (\<lambda>_.
     ret \<lparr>pb_buffer = r_out map, m_physical_address = r_out pa\<rparr>))))))))))"

definition PhysicalBuffer_delete :: "'e ext \<Rightarrow> PhysicalBuffer \<Rightarrow> ('e world, failure, unit) comp" where
  "PhysicalBuffer_delete X b =
     andthen (call X (munmap_pmap (pb_buffer b) (pages * page_size_bt))) (\<lambda>r.
     if r_ret r < 0 then fail Terminate else ret ())"

text \<open>The defaulted move constructor copies the members: the new object and what is left of the old one.\<close>

definition PhysicalBuffer_move :: "PhysicalBuffer \<Rightarrow> PhysicalBuffer \<times> PhysicalBuffer" where
  "PhysicalBuffer_move b = (b, b)"

subsection \<open>Access\<close>

definition response_address :: "PhysicalBuffer \<Rightarrow> u64" where
  "response_address b = m_physical_address b"

definition send_address :: "PhysicalBuffer \<Rightarrow> u64" where
  "send_address b = m_physical_address b + page_size_bt"

definition send_buffer_size_qw :: u64 where
  "send_buffer_size_qw = page_size_qw * (pages - 1)"

text \<open>\<^verbatim>\<open>(*m_buffer)[i]\<close>, read and written.\<close>

definition buffer_at :: "u64 \<Rightarrow> ('e world, failure, u64) comp" where
  "buffer_at i w = (if i < buffer_words then (Inr (w_mem w i), w) else (Inl Undefined, w))"

definition buffer_put :: "u64 \<Rightarrow> u64 \<Rightarrow> ('e world, failure, unit) comp" where
  "buffer_put i x w =
     (if i < buffer_words then (Inr (), w\<lparr>w_mem := (w_mem w)(i := x)\<rparr>) else (Inl Undefined, w))"

definition read_response :: "('e world, failure, u64) comp" where
  "read_response = buffer_at 0"

definition read_send :: "u64 \<Rightarrow> ('e world, failure, u64) comp" where
  "read_send index = buffer_at (index + page_size_qw)"

definition write_send :: "u64 \<Rightarrow> u64 \<Rightarrow> ('e world, failure, unit) comp" where
  "write_send index data = buffer_put (index + page_size_qw) data"

lemma read_response_eq [simp]: "read_response w = (Inr (w_mem w 0), w)"
  by (simp add: read_response_def buffer_at_def buffer_consts)

lemma send_index_ok:
  assumes "index < send_buffer_size_qw"
  shows "index + page_size_qw < buffer_words" and "index + page_size_qw \<noteq> 0"
    and "unat (index + page_size_qw) = unat index + 512"
proof -
  from assms have i: "unat index < 523776"
    by (simp add: send_buffer_size_qw_def buffer_consts word_less_nat_alt)
  then show eq: "unat (index + page_size_qw) = unat index + 512"
    by (simp add: buffer_consts unat_word_ariths)
  with i show "index + page_size_qw < buffer_words"
    by (simp add: word_less_nat_alt buffer_consts)
  from eq show "index + page_size_qw \<noteq> 0"
    by (metis add_eq_0_iff_both_eq_0 unat_0 zero_neq_numeral)
qed

subsection \<open>Properties of the physical buffer\<close>

text \<open>
  For every index within the send buffer, a quad word written is the one read back, every
  other word of the send buffer and the RRA response stay as they were, and nothing outside is
  called.
\<close>

theorem write_send_read_send:
  assumes "index < send_buffer_size_qw" and "other < send_buffer_size_qw" and "other \<noteq> index"
  shows "\<exists>w'. write_send index data w = (Inr (), w')
    \<and> read_send index w' = (Inr data, w')
    \<and> fst (read_send other w') = fst (read_send other w)
    \<and> fst (read_response w') = fst (read_response w)
    \<and> asked w w' = []"
  using send_index_ok [OF assms(1)] send_index_ok [OF assms(2)] assms(3)
  by (auto simp: write_send_def read_send_def buffer_at_def buffer_put_def asked_def)

theorem write_send_read_send_witness:
  "\<exists>w'. write_send 523775 42 world0 = (Inr (), w')
    \<and> read_send 523775 w' = (Inr 42, w')
    \<and> fst (read_send 0 w') = fst (read_send 0 world0)
    \<and> fst (read_response w') = fst (read_response world0)
    \<and> asked world0 w' = []"
  by (rule write_send_read_send) (simp_all add: send_buffer_size_qw_def buffer_consts)

text \<open>
  \<^verbatim>\<open>write_send\<close> checks nothing. It is undefined behaviour exactly when the index plus one
  page lies outside the mapping; because that sum wraps around, the 512 largest indices are not
  outside but fall on the response page, and index \<open>2^64 - 512\<close> overwrites the RRA response.
\<close>

theorem write_send_unchecked:
  "(fst (write_send index data w) = Inl Undefined
      \<longleftrightarrow> send_buffer_size_qw \<le> index \<and> index < - page_size_qw)
   \<and> fst (read_response (snd (write_send (- page_size_qw) data w))) = Inr data"
proof -
  have "index + page_size_qw < buffer_words
      \<longleftrightarrow> \<not> (send_buffer_size_qw \<le> index \<and> index < - page_size_qw)"
    by (simp add: send_buffer_size_qw_def buffer_consts word_less_nat_alt word_le_nat_alt
        unat_word_ariths) (use unat_u64_bound [of index] in \<open>auto simp: le_mod_geq\<close>)
  then show ?thesis
    by (auto simp: write_send_def buffer_put_def buffer_consts)
qed

text \<open>
  The send buffer starts one page after the response and ends exactly at the end of the
  mapped 1024 pages.
\<close>

theorem send_buffer_fills_mapping:
  "send_address b = response_address b + page_size_bt
   \<and> send_address b + send_buffer_size_qw * quad_word_size_bt
     = response_address b + pages * page_size_bt
   \<and> send_buffer_size_qw + page_size_qw = buffer_words"
  by (simp add: send_address_def response_address_def send_buffer_size_qw_def buffer_consts)

text \<open>
  Once the region is mapped, construction makes exactly these six calls in this order; it
  keeps the mapping and its physical address when the last one succeeds, and otherwise throws
  without unmapping the region (the destructor of an object that was never constructed does not
  run). The device file is not closed on either path.
\<close>

theorem PhysicalBuffer_new_mapped:
  assumes "\<And>c e m. c \<noteq> ioctl_pmap_get_paddr 3 \<Longrightarrow>
      r_ret (fst (X c e m)) = (if c = sysconf_pagesize then 4096 else 3)"
    and "\<And>fd n e m. r_out (fst (X (mmap_pmap fd n) e m)) = base" and "base \<noteq> MAP_FAILED"
    and "\<And>e m. fst (X (ioctl_pmap_get_paddr 3) e m) = pa"
  shows "\<exists>w'. PhysicalBuffer_new X w =
      (if r_ret pa < 0
       then Inl (Throw (runtime_error ''Failed to acquire physical address of buffer.''))
       else Inr \<lparr>pb_buffer = base, m_physical_address = r_out pa\<rparr>, w')
    \<and> asked w w' = [sysconf_pagesize, open_pmap, ioctl_pmap_set_type 3 0,
         ioctl_pmap_set_size 3 0x400000, mmap_pmap 3 0x400000, ioctl_pmap_get_paddr 3]"
proof -
  have ans: "answer X c v = fst (X c (w_env v) (w_mem v))" for c v
    by (simp add: answer_def ask_def split: prod.splits)
  show ?thesis
    using assms by (simp add: PhysicalBuffer_new_def throw_if_negative_def ans pages_def asked_def)
qed

theorem PhysicalBuffer_new_mapped_witness:
  "\<exists>w'. PhysicalBuffer_new
        (\<lambda>c e m. (\<lparr>r_status = RMA2_SUCCESS,
            r_ret = (if c = ioctl_pmap_get_paddr 3 then - 1 else if c = sysconf_pagesize then 4096 else 3),
            r_out = 0x7000\<rparr>, e, m)) world0
      = (Inl (Throw (runtime_error ''Failed to acquire physical address of buffer.'')), w')
    \<and> asked world0 w' = [sysconf_pagesize, open_pmap, ioctl_pmap_set_type 3 0,
         ioctl_pmap_set_size 3 0x400000, mmap_pmap 3 0x400000, ioctl_pmap_get_paddr 3]"
  using PhysicalBuffer_new_mapped
    [of "\<lambda>c e m. (\<lparr>r_status = RMA2_SUCCESS,
            r_ret = (if c = ioctl_pmap_get_paddr 3 then - 1 else if c = sysconf_pagesize then 4096 else 3),
            r_out = 0x7000\<rparr>, e, m)" "0x7000" "\<lparr>r_status = RMA2_SUCCESS, r_ret = - 1, r_out = 0x7000\<rparr>" world0]
  by (simp add: MAP_FAILED_def)

end
