(* ===== verification/Register_Files.thy ===== *)
theory Register_Files
  imports Nhtl_Prelude
begin

text \<open>
  The register files of \<^verbatim>\<open>include/nhtl-extoll/configure_fpga.h\<close> with their constructors and
  accessors from \<^verbatim>\<open>src/nhtl-extoll/configure_fpga.cpp\<close>, in the order of the source. A
  register-file class is a record with its one data member \<^verbatim>\<open>raw\<close>; a getter keeps the name
  of the field, a setter has \<open>set_\<close> before it; the class constants are collected in
  \<open><class>_RF\<close>, the value that stands for the template argument \<^verbatim>\<open>RF\<close> of
  \<^verbatim>\<open>rra_read\<close> and \<^verbatim>\<open>rra_write\<close>.

  The lemmas show which accessors keep the promise of the class documentation
  (\<open>lossless_field\<close>, \<open>disjoint_fields\<close>) and which do not (\<open>sticky_field\<close> for \<^verbatim>\<open>Info\<close>,
  the clobbering setters of the notification behaviour).
\<close>

unbundle bit_operations_syntax

text \<open>The static members and the conversion to and from \<^verbatim>\<open>raw\<close> that the templates use.\<close>

record 'rf RF =
  rf_address :: u64
  readable :: bool
  writable :: bool
  raw_of :: "'rf \<Rightarrow> u64"
  of_raw :: "u64 \<Rightarrow> 'rf"

definition max_address :: u64 where
  "max_address = 0x180d0"

text \<open>The \<^verbatim>\<open>static_assert\<close>s of the two templates; the address is unsigned, so never negative.\<close>

definition rf_read_ok :: "'rf RF \<Rightarrow> bool" where
  "rf_read_ok T \<longleftrightarrow> rf_address T \<ge> 0 \<and> rf_address T \<le> max_address \<and> readable T"

definition rf_write_ok :: "'rf RF \<Rightarrow> bool" where
  "rf_write_ok T \<longleftrightarrow> rf_address T \<ge> 0 \<and> rf_address T \<le> max_address \<and> writable T"

lemmas rf_ok = rf_read_ok_def rf_write_ok_def max_address_def

subsection \<open>HostEndpoint\<close>

record HostEndpoint =
  HostEndpoint_raw :: u64

definition HostEndpoint_RF :: "HostEndpoint RF" where [rf_defs]:
  "HostEndpoint_RF =
     \<lparr>rf_address = 0x5298, readable = True, writable = True, raw_of = HostEndpoint_raw,
      of_raw = (\<lambda>w. \<lparr>HostEndpoint_raw = w\<rparr>)\<rparr>"

definition HostEndpoint_new :: "u32 \<Rightarrow> u32 \<Rightarrow> u32 \<Rightarrow> u32 \<Rightarrow> HostEndpoint" where [rf_defs]:
  "HostEndpoint_new node_id' protection_domain' vpid' mode' =
     \<lparr>HostEndpoint_raw = bf_or 42 0x3f (ucast mode') (bf_or 32 0x3ff (ucast vpid')
       (bf_or 16 0xffff (ucast protection_domain') (bf_or 0 0xffff (ucast node_id') 0)))\<rparr>"

definition HostEndpoint_node_id :: "HostEndpoint \<Rightarrow> u32" where [rf_defs]:
  "HostEndpoint_node_id r =
     ucast (bf_read 0 0xffff (HostEndpoint_raw r))"

definition HostEndpoint_protection_domain :: "HostEndpoint \<Rightarrow> u32" where [rf_defs]:
  "HostEndpoint_protection_domain r =
     ucast (bf_read 16 0xffff (HostEndpoint_raw r))"

definition HostEndpoint_vpid :: "HostEndpoint \<Rightarrow> u32" where [rf_defs]:
  "HostEndpoint_vpid r =
     ucast (bf_read 32 0x3ff (HostEndpoint_raw r))"

definition HostEndpoint_mode :: "HostEndpoint \<Rightarrow> u32" where [rf_defs]:
  "HostEndpoint_mode r =
     ucast (bf_read 42 0x3f (HostEndpoint_raw r))"

definition HostEndpoint_set_node_id :: "u32 \<Rightarrow> HostEndpoint \<Rightarrow> HostEndpoint" where [rf_defs]:
  "HostEndpoint_set_node_id value r =
     r\<lparr>HostEndpoint_raw := bf_or 0 0xffff (ucast value) (bf_clear 0 0xffff (HostEndpoint_raw r))\<rparr>"

definition HostEndpoint_set_protection_domain :: "u32 \<Rightarrow> HostEndpoint \<Rightarrow> HostEndpoint" where [rf_defs]:
  "HostEndpoint_set_protection_domain value r =
     r\<lparr>HostEndpoint_raw := bf_or 16 0xffff (ucast value) (bf_clear 16 0xffff (HostEndpoint_raw r))\<rparr>"

definition HostEndpoint_set_vpid :: "u32 \<Rightarrow> HostEndpoint \<Rightarrow> HostEndpoint" where [rf_defs]:
  "HostEndpoint_set_vpid value r =
     r\<lparr>HostEndpoint_raw := bf_or 32 0x3ff (ucast value) (bf_clear 32 0x3ff (HostEndpoint_raw r))\<rparr>"

definition HostEndpoint_set_mode :: "u32 \<Rightarrow> HostEndpoint \<Rightarrow> HostEndpoint" where [rf_defs]:
  "HostEndpoint_set_mode value r =
     r\<lparr>HostEndpoint_raw := bf_or 42 0x3f (ucast value) (bf_clear 42 0x3f (HostEndpoint_raw r))\<rparr>"

subsection \<open>ConfigResponse\<close>

record ConfigResponse =
  ConfigResponse_raw :: u64

definition ConfigResponse_RF :: "ConfigResponse RF" where [rf_defs]:
  "ConfigResponse_RF =
     \<lparr>rf_address = 0x52a0, readable = True, writable = True, raw_of = ConfigResponse_raw,
      of_raw = (\<lambda>w. \<lparr>ConfigResponse_raw = w\<rparr>)\<rparr>"

definition ConfigResponse_new :: "u64 \<Rightarrow> ConfigResponse" where [rf_defs]:
  "ConfigResponse_new value =
     \<lparr>ConfigResponse_raw = value\<rparr>"

definition ConfigResponse_address :: "ConfigResponse \<Rightarrow> u64" where [rf_defs]:
  "ConfigResponse_address r =
     ConfigResponse_raw r"

definition ConfigResponse_set_address :: "u64 \<Rightarrow> ConfigResponse \<Rightarrow> ConfigResponse" where [rf_defs]:
  "ConfigResponse_set_address value r =
     r\<lparr>ConfigResponse_raw := value\<rparr>"

subsection \<open>HicannBufferStart\<close>

record HicannBufferStart =
  HicannBufferStart_raw :: u64

definition HicannBufferStart_RF :: "HicannBufferStart RF" where [rf_defs]:
  "HicannBufferStart_RF =
     \<lparr>rf_address = 0x5080, readable = True, writable = True, raw_of = HicannBufferStart_raw,
      of_raw = (\<lambda>w. \<lparr>HicannBufferStart_raw = w\<rparr>)\<rparr>"

definition HicannBufferStart_new :: "u64 \<Rightarrow> HicannBufferStart" where [rf_defs]:
  "HicannBufferStart_new value =
     \<lparr>HicannBufferStart_raw = value\<rparr>"

definition HicannBufferStart_data :: "HicannBufferStart \<Rightarrow> u64" where [rf_defs]:
  "HicannBufferStart_data r =
     HicannBufferStart_raw r"

definition HicannBufferStart_set_data :: "u64 \<Rightarrow> HicannBufferStart \<Rightarrow> HicannBufferStart" where [rf_defs]:
  "HicannBufferStart_set_data value r =
     r\<lparr>HicannBufferStart_raw := value\<rparr>"

subsection \<open>HicannBufferSize\<close>

record HicannBufferSize =
  HicannBufferSize_raw :: u64

definition HicannBufferSize_RF :: "HicannBufferSize RF" where [rf_defs]:
  "HicannBufferSize_RF =
     \<lparr>rf_address = 0x5088, readable = True, writable = True, raw_of = HicannBufferSize_raw,
      of_raw = (\<lambda>w. \<lparr>HicannBufferSize_raw = w\<rparr>)\<rparr>"

definition HicannBufferSize_new :: "u32 \<Rightarrow> HicannBufferSize" where [rf_defs]:
  "HicannBufferSize_new data' =
     \<lparr>HicannBufferSize_raw = ucast data'\<rparr>"

definition HicannBufferSize_data :: "HicannBufferSize \<Rightarrow> u32" where [rf_defs]:
  "HicannBufferSize_data r =
     ucast (bf_read 0 0xffffffff (HicannBufferSize_raw r))"

definition HicannBufferSize_set_data :: "u32 \<Rightarrow> HicannBufferSize \<Rightarrow> HicannBufferSize" where [rf_defs]:
  "HicannBufferSize_set_data value r =
     r\<lparr>HicannBufferSize_raw := ucast value\<rparr>"

subsection \<open>HicannBufferFullThreshold\<close>

record HicannBufferFullThreshold =
  HicannBufferFullThreshold_raw :: u64

definition HicannBufferFullThreshold_RF :: "HicannBufferFullThreshold RF" where [rf_defs]:
  "HicannBufferFullThreshold_RF =
     \<lparr>rf_address = 0x5090, readable = True, writable = True, raw_of = HicannBufferFullThreshold_raw,
      of_raw = (\<lambda>w. \<lparr>HicannBufferFullThreshold_raw = w\<rparr>)\<rparr>"

definition HicannBufferFullThreshold_new :: "u32 \<Rightarrow> HicannBufferFullThreshold" where [rf_defs]:
  "HicannBufferFullThreshold_new data' =
     \<lparr>HicannBufferFullThreshold_raw = 0 OR ucast data'\<rparr>"

definition HicannBufferFullThreshold_data :: "HicannBufferFullThreshold \<Rightarrow> u32" where [rf_defs]:
  "HicannBufferFullThreshold_data r =
     ucast (bf_read 0 0xffffffff (HicannBufferFullThreshold_raw r))"

definition HicannBufferFullThreshold_set_data :: "u32 \<Rightarrow> HicannBufferFullThreshold \<Rightarrow> HicannBufferFullThreshold" where [rf_defs]:
  "HicannBufferFullThreshold_set_data value r =
     r\<lparr>HicannBufferFullThreshold_raw := ucast value\<rparr>"

subsection \<open>HicannNotificationBehaviour\<close>

record HicannNotificationBehaviour =
  HicannNotificationBehaviour_raw :: u64

definition HicannNotificationBehaviour_RF :: "HicannNotificationBehaviour RF" where [rf_defs]:
  "HicannNotificationBehaviour_RF =
     \<lparr>rf_address = 0x52b0, readable = True, writable = True, raw_of = HicannNotificationBehaviour_raw,
      of_raw = (\<lambda>w. \<lparr>HicannNotificationBehaviour_raw = w\<rparr>)\<rparr>"

definition HicannNotificationBehaviour_new :: "u32 \<Rightarrow> u32 \<Rightarrow> HicannNotificationBehaviour" where [rf_defs]:
  "HicannNotificationBehaviour_new timeout' frequency' =
     \<lparr>HicannNotificationBehaviour_raw = (0 OR push_bit 0 (ucast timeout')) OR push_bit 32 (ucast frequency')\<rparr>"

definition HicannNotificationBehaviour_timeout :: "HicannNotificationBehaviour \<Rightarrow> u32" where [rf_defs]:
  "HicannNotificationBehaviour_timeout r =
     ucast (bf_read 0 0xffffffff (HicannNotificationBehaviour_raw r))"

definition HicannNotificationBehaviour_frequency :: "HicannNotificationBehaviour \<Rightarrow> u32" where [rf_defs]:
  "HicannNotificationBehaviour_frequency r =
     ucast (bf_read 32 0xffffffff (HicannNotificationBehaviour_raw r))"

definition HicannNotificationBehaviour_set_timeout :: "u32 \<Rightarrow> HicannNotificationBehaviour \<Rightarrow> HicannNotificationBehaviour" where [rf_defs]:
  "HicannNotificationBehaviour_set_timeout value r =
     r\<lparr>HicannNotificationBehaviour_raw := push_bit 0 (ucast value)\<rparr>"

definition HicannNotificationBehaviour_set_frequency :: "u32 \<Rightarrow> HicannNotificationBehaviour \<Rightarrow> HicannNotificationBehaviour" where [rf_defs]:
  "HicannNotificationBehaviour_set_frequency value r =
     r\<lparr>HicannNotificationBehaviour_raw := push_bit 32 (ucast value)\<rparr>"

subsection \<open>HicannTracePktClosure\<close>

record HicannTracePktClosure =
  HicannTracePktClosure_raw :: u64

definition HicannTracePktClosure_RF :: "HicannTracePktClosure RF" where [rf_defs]:
  "HicannTracePktClosure_RF =
     \<lparr>rf_address = 0x52b8, readable = True, writable = True, raw_of = HicannTracePktClosure_raw,
      of_raw = (\<lambda>w. \<lparr>HicannTracePktClosure_raw = w\<rparr>)\<rparr>"

definition HicannTracePktClosure_new :: "u32 \<Rightarrow> HicannTracePktClosure" where [rf_defs]:
  "HicannTracePktClosure_new timeout' =
     \<lparr>HicannTracePktClosure_raw = 0 OR push_bit 0 (ucast timeout')\<rparr>"

definition HicannTracePktClosure_timeout :: "HicannTracePktClosure \<Rightarrow> u32" where [rf_defs]:
  "HicannTracePktClosure_timeout r =
     ucast (bf_read 0 0xffffffff (HicannTracePktClosure_raw r))"

definition HicannTracePktClosure_set_timeout :: "u32 \<Rightarrow> HicannTracePktClosure \<Rightarrow> HicannTracePktClosure" where [rf_defs]:
  "HicannTracePktClosure_set_timeout value r =
     r\<lparr>HicannTracePktClosure_raw := push_bit 0 (ucast value)\<rparr>"

subsection \<open>HicannBufferInit\<close>

record HicannBufferInit =
  HicannBufferInit_raw :: u64

definition HicannBufferInit_RF :: "HicannBufferInit RF" where [rf_defs]:
  "HicannBufferInit_RF =
     \<lparr>rf_address = 0x50c0, readable = True, writable = True, raw_of = HicannBufferInit_raw,
      of_raw = (\<lambda>w. \<lparr>HicannBufferInit_raw = w\<rparr>)\<rparr>"

definition HicannBufferInit_new :: "bool \<Rightarrow> HicannBufferInit" where [rf_defs]:
  "HicannBufferInit_new start' =
     \<lparr>HicannBufferInit_raw = of_bool start' AND 0x1\<rparr>"

definition HicannBufferInit_start :: "HicannBufferInit \<Rightarrow> bool" where [rf_defs]:
  "HicannBufferInit_start r =
     (bf_read 0 0x1 (HicannBufferInit_raw r) \<noteq> 0)"

definition HicannBufferInit_set_start :: "bool \<Rightarrow> HicannBufferInit \<Rightarrow> HicannBufferInit" where [rf_defs]:
  "HicannBufferInit_set_start value r =
     r\<lparr>HicannBufferInit_raw := of_bool value AND 0x1\<rparr>"

subsection \<open>HicannBufferCounterReset\<close>

record HicannBufferCounterReset =
  HicannBufferCounterReset_raw :: u64

definition HicannBufferCounterReset_RF :: "HicannBufferCounterReset RF" where [rf_defs]:
  "HicannBufferCounterReset_RF =
     \<lparr>rf_address = 0x50a0, readable = False, writable = True, raw_of = HicannBufferCounterReset_raw,
      of_raw = (\<lambda>w. \<lparr>HicannBufferCounterReset_raw = w\<rparr>)\<rparr>"

definition HicannBufferCounterReset_new :: "bool \<Rightarrow> HicannBufferCounterReset" where [rf_defs]:
  "HicannBufferCounterReset_new reset' =
     \<lparr>HicannBufferCounterReset_raw = bf_or 0 0x1 (of_bool reset') 0\<rparr>"

definition HicannBufferCounterReset_reset :: "HicannBufferCounterReset \<Rightarrow> bool" where [rf_defs]:
  "HicannBufferCounterReset_reset r =
     (bf_read 0 0x1 (HicannBufferCounterReset_raw r) \<noteq> 0)"

definition HicannBufferCounterReset_set_reset :: "bool \<Rightarrow> HicannBufferCounterReset \<Rightarrow> HicannBufferCounterReset" where [rf_defs]:
  "HicannBufferCounterReset_set_reset value r =
     r\<lparr>HicannBufferCounterReset_raw := bf_or 0 0x1 (of_bool value) (bf_clear 0 0x1 (HicannBufferCounterReset_raw r))\<rparr>"

subsection \<open>TraceBufferStart\<close>

record TraceBufferStart =
  TraceBufferStart_raw :: u64

definition TraceBufferStart_RF :: "TraceBufferStart RF" where [rf_defs]:
  "TraceBufferStart_RF =
     \<lparr>rf_address = 0x5000, readable = True, writable = True, raw_of = TraceBufferStart_raw,
      of_raw = (\<lambda>w. \<lparr>TraceBufferStart_raw = w\<rparr>)\<rparr>"

definition TraceBufferStart_new :: "u64 \<Rightarrow> TraceBufferStart" where [rf_defs]:
  "TraceBufferStart_new value =
     \<lparr>TraceBufferStart_raw = value AND 0xffffffffffffffff\<rparr>"

definition TraceBufferStart_data :: "TraceBufferStart \<Rightarrow> u64" where [rf_defs]:
  "TraceBufferStart_data r =
     TraceBufferStart_raw r"

definition TraceBufferStart_set_data :: "u64 \<Rightarrow> TraceBufferStart \<Rightarrow> TraceBufferStart" where [rf_defs]:
  "TraceBufferStart_set_data value r =
     r\<lparr>TraceBufferStart_raw := value\<rparr>"

subsection \<open>TraceBufferSize\<close>

record TraceBufferSize =
  TraceBufferSize_raw :: u64

definition TraceBufferSize_RF :: "TraceBufferSize RF" where [rf_defs]:
  "TraceBufferSize_RF =
     \<lparr>rf_address = 0x5008, readable = True, writable = True, raw_of = TraceBufferSize_raw,
      of_raw = (\<lambda>w. \<lparr>TraceBufferSize_raw = w\<rparr>)\<rparr>"

definition TraceBufferSize_new :: "u32 \<Rightarrow> TraceBufferSize" where [rf_defs]:
  "TraceBufferSize_new data' =
     \<lparr>TraceBufferSize_raw = ucast data'\<rparr>"

definition TraceBufferSize_data :: "TraceBufferSize \<Rightarrow> u32" where [rf_defs]:
  "TraceBufferSize_data r =
     ucast (bf_read 0 0xffffffff (TraceBufferSize_raw r))"

definition TraceBufferSize_set_data :: "u32 \<Rightarrow> TraceBufferSize \<Rightarrow> TraceBufferSize" where [rf_defs]:
  "TraceBufferSize_set_data value r =
     r\<lparr>TraceBufferSize_raw := ucast value\<rparr>"

subsection \<open>TraceBufferFullThreshold\<close>

record TraceBufferFullThreshold =
  TraceBufferFullThreshold_raw :: u64

definition TraceBufferFullThreshold_RF :: "TraceBufferFullThreshold RF" where [rf_defs]:
  "TraceBufferFullThreshold_RF =
     \<lparr>rf_address = 0x5010, readable = True, writable = True, raw_of = TraceBufferFullThreshold_raw,
      of_raw = (\<lambda>w. \<lparr>TraceBufferFullThreshold_raw = w\<rparr>)\<rparr>"

definition TraceBufferFullThreshold_new :: "u32 \<Rightarrow> TraceBufferFullThreshold" where [rf_defs]:
  "TraceBufferFullThreshold_new data' =
     \<lparr>TraceBufferFullThreshold_raw = 0 OR ucast data'\<rparr>"

definition TraceBufferFullThreshold_data :: "TraceBufferFullThreshold \<Rightarrow> u32" where [rf_defs]:
  "TraceBufferFullThreshold_data r =
     ucast (bf_read 0 0xffffffff (TraceBufferFullThreshold_raw r))"

definition TraceBufferFullThreshold_set_data :: "u32 \<Rightarrow> TraceBufferFullThreshold \<Rightarrow> TraceBufferFullThreshold" where [rf_defs]:
  "TraceBufferFullThreshold_set_data value r =
     r\<lparr>TraceBufferFullThreshold_raw := ucast value\<rparr>"

subsection \<open>TraceBufferCounter\<close>

record TraceBufferCounter =
  TraceBufferCounter_raw :: u64

definition TraceBufferCounter_RF :: "TraceBufferCounter RF" where [rf_defs]:
  "TraceBufferCounter_RF =
     \<lparr>rf_address = 0x5018, readable = True, writable = False, raw_of = TraceBufferCounter_raw,
      of_raw = (\<lambda>w. \<lparr>TraceBufferCounter_raw = w\<rparr>)\<rparr>"

text \<open>
  Its constructor and accessors are declared in the header but have no definition in the
  repository, so only the data and the class constants are modelled.
\<close>

subsection \<open>TraceBufferCounterReset\<close>

record TraceBufferCounterReset =
  TraceBufferCounterReset_raw :: u64

definition TraceBufferCounterReset_RF :: "TraceBufferCounterReset RF" where [rf_defs]:
  "TraceBufferCounterReset_RF =
     \<lparr>rf_address = 0x5020, readable = False, writable = True, raw_of = TraceBufferCounterReset_raw,
      of_raw = (\<lambda>w. \<lparr>TraceBufferCounterReset_raw = w\<rparr>)\<rparr>"

definition TraceBufferCounterReset_new :: "bool \<Rightarrow> TraceBufferCounterReset" where [rf_defs]:
  "TraceBufferCounterReset_new reset' =
     \<lparr>TraceBufferCounterReset_raw = bf_or 0 0x1 (of_bool reset') 0\<rparr>"

definition TraceBufferCounterReset_reset :: "TraceBufferCounterReset \<Rightarrow> bool" where [rf_defs]:
  "TraceBufferCounterReset_reset r =
     (bf_read 0 0x1 (TraceBufferCounterReset_raw r) \<noteq> 0)"

definition TraceBufferCounterReset_set_reset :: "bool \<Rightarrow> TraceBufferCounterReset \<Rightarrow> TraceBufferCounterReset" where [rf_defs]:
  "TraceBufferCounterReset_set_reset value r =
     r\<lparr>TraceBufferCounterReset_raw := bf_or 0 0x1 (of_bool value) (bf_clear 0 0x1 (TraceBufferCounterReset_raw r))\<rparr>"

subsection \<open>TraceBufferInit\<close>

record TraceBufferInit =
  TraceBufferInit_raw :: u64

definition TraceBufferInit_RF :: "TraceBufferInit RF" where [rf_defs]:
  "TraceBufferInit_RF =
     \<lparr>rf_address = 0x5040, readable = True, writable = True, raw_of = TraceBufferInit_raw,
      of_raw = (\<lambda>w. \<lparr>TraceBufferInit_raw = w\<rparr>)\<rparr>"

definition TraceBufferInit_new :: "bool \<Rightarrow> TraceBufferInit" where [rf_defs]:
  "TraceBufferInit_new start' =
     \<lparr>TraceBufferInit_raw = of_bool start' AND 0x1\<rparr>"

definition TraceBufferInit_start :: "TraceBufferInit \<Rightarrow> bool" where [rf_defs]:
  "TraceBufferInit_start r =
     (bf_read 0 0x1 (TraceBufferInit_raw r) \<noteq> 0)"

definition TraceBufferInit_set_start :: "bool \<Rightarrow> TraceBufferInit \<Rightarrow> TraceBufferInit" where [rf_defs]:
  "TraceBufferInit_set_start value r =
     r\<lparr>TraceBufferInit_raw := of_bool value AND 0x1\<rparr>"

subsection \<open>TraceNotificationBehaviour\<close>

record TraceNotificationBehaviour =
  TraceNotificationBehaviour_raw :: u64

definition TraceNotificationBehaviour_RF :: "TraceNotificationBehaviour RF" where [rf_defs]:
  "TraceNotificationBehaviour_RF =
     \<lparr>rf_address = 0x52a8, readable = True, writable = True, raw_of = TraceNotificationBehaviour_raw,
      of_raw = (\<lambda>w. \<lparr>TraceNotificationBehaviour_raw = w\<rparr>)\<rparr>"

definition TraceNotificationBehaviour_new :: "u32 \<Rightarrow> u32 \<Rightarrow> TraceNotificationBehaviour" where [rf_defs]:
  "TraceNotificationBehaviour_new timeout' frequency' =
     \<lparr>TraceNotificationBehaviour_raw = (0 OR push_bit 0 (ucast timeout')) OR push_bit 32 (ucast frequency')\<rparr>"

definition TraceNotificationBehaviour_timeout :: "TraceNotificationBehaviour \<Rightarrow> u32" where [rf_defs]:
  "TraceNotificationBehaviour_timeout r =
     ucast (bf_read 0 0xffffffff (TraceNotificationBehaviour_raw r))"

definition TraceNotificationBehaviour_frequency :: "TraceNotificationBehaviour \<Rightarrow> u32" where [rf_defs]:
  "TraceNotificationBehaviour_frequency r =
     ucast (bf_read 32 0xffffffff (TraceNotificationBehaviour_raw r))"

definition TraceNotificationBehaviour_set_timeout :: "u32 \<Rightarrow> TraceNotificationBehaviour \<Rightarrow> TraceNotificationBehaviour" where [rf_defs]:
  "TraceNotificationBehaviour_set_timeout value r =
     r\<lparr>TraceNotificationBehaviour_raw := push_bit 0 (ucast value)\<rparr>"

definition TraceNotificationBehaviour_set_frequency :: "u32 \<Rightarrow> TraceNotificationBehaviour \<Rightarrow> TraceNotificationBehaviour" where [rf_defs]:
  "TraceNotificationBehaviour_set_frequency value r =
     r\<lparr>TraceNotificationBehaviour_raw := push_bit 32 (ucast value)\<rparr>"

subsection \<open>Info\<close>

record Info =
  Info_raw :: u64

definition Info_RF :: "Info RF" where [rf_defs]:
  "Info_RF =
     \<lparr>rf_address = 0x8008, readable = True, writable = True, raw_of = Info_raw,
      of_raw = (\<lambda>w. \<lparr>Info_raw = w\<rparr>)\<rparr>"

definition Info_new :: "u32 \<Rightarrow> u16 \<Rightarrow> u8 \<Rightarrow> u8 \<Rightarrow> u8 \<Rightarrow> Info" where [rf_defs]:
  "Info_new guid' ndid' waferid' socketid' edgeid' =
     \<lparr>Info_raw = bf_or 52 0x3 (ucast edgeid') (bf_or 48 0xf (ucast socketid') (bf_or 40 0xff (ucast waferid')
       (bf_or 24 0xffff (ucast ndid') (bf_or 0 0xffffff (ucast guid') 0))))\<rparr>"

definition Info_guid :: "Info \<Rightarrow> u32" where [rf_defs]:
  "Info_guid r =
     ucast (bf_read 0 0xffffff (Info_raw r))"

definition Info_set_guid :: "u32 \<Rightarrow> Info \<Rightarrow> Info" where [rf_defs]:
  "Info_set_guid value r =
     r\<lparr>Info_raw := bf_or 0 0xffffff (ucast value) (Info_raw r)\<rparr>"

definition Info_ndid :: "Info \<Rightarrow> u16" where [rf_defs]:
  "Info_ndid r =
     ucast (bf_read 24 0xffff (Info_raw r))"

definition Info_set_ndid :: "u16 \<Rightarrow> Info \<Rightarrow> Info" where [rf_defs]:
  "Info_set_ndid value r =
     r\<lparr>Info_raw := bf_or 24 0xffff (ucast value) (Info_raw r)\<rparr>"

definition Info_waferid :: "Info \<Rightarrow> u8" where [rf_defs]:
  "Info_waferid r =
     ucast (bf_read 40 0xff (Info_raw r))"

definition Info_set_waferid :: "u8 \<Rightarrow> Info \<Rightarrow> Info" where [rf_defs]:
  "Info_set_waferid value r =
     r\<lparr>Info_raw := bf_or 40 0xff (ucast value) (Info_raw r)\<rparr>"

definition Info_socketid :: "Info \<Rightarrow> u8" where [rf_defs]:
  "Info_socketid r =
     ucast (bf_read 48 0xf (Info_raw r))"

definition Info_set_socketid :: "u8 \<Rightarrow> Info \<Rightarrow> Info" where [rf_defs]:
  "Info_set_socketid value r =
     r\<lparr>Info_raw := bf_or 48 0xf (ucast value) (Info_raw r)\<rparr>"

definition Info_edgeid :: "Info \<Rightarrow> u8" where [rf_defs]:
  "Info_edgeid r =
     ucast (bf_read 52 0x3 (Info_raw r))"

definition Info_set_edgeid :: "u8 \<Rightarrow> Info \<Rightarrow> Info" where [rf_defs]:
  "Info_set_edgeid value r =
     r\<lparr>Info_raw := bf_or 52 0x3 (ucast value) (Info_raw r)\<rparr>"

end
