(* ===== verification/Register_Laws.thy ===== *)
theory Register_Laws
  imports Register_Files
begin

text \<open>
  What the accessors of the register files promise and keep. The field locales of the prelude
  are interpreted on every getter/setter pair of the source: \<open>lossless_field\<close> and
  \<open>disjoint_fields\<close> for \<^verbatim>\<open>HostEndpoint\<close>, the address registers and the counter resets,
  \<open>field_writer\<close> for the 32-bit and flag registers, \<open>sticky_field\<close> for \<^verbatim>\<open>Info\<close>. The locale
  \<open>register_file\<close> is what \<^verbatim>\<open>rra_read\<close> and \<^verbatim>\<open>rra_write\<close> need of their template argument.
\<close>

unbundle bit_operations_syntax

lemmas rf_simps = rf_defs lit_mask bf_simps

subsection \<open>The template argument\<close>

locale register_file =
  fixes T :: "'rf RF"
  assumes raw_of_raw: "raw_of T (of_raw T x) = x"
    and of_raw_of: "of_raw T (raw_of T r) = r"
    and address_ok: "rf_address T \<le> max_address"
begin

lemma raw_of_inject: "raw_of T r = raw_of T s \<longleftrightarrow> r = s"
  using of_raw_of [of r] of_raw_of [of s] by metis

lemma of_raw_inject: "of_raw T x = of_raw T y \<longleftrightarrow> x = y"
  using raw_of_raw [of x] raw_of_raw [of y] by metis

lemma read_ok_iff: "rf_read_ok T \<longleftrightarrow> readable T"
  by (simp add: rf_read_ok_def address_ok)

lemma write_ok_iff: "rf_write_ok T \<longleftrightarrow> writable T"
  by (simp add: rf_write_ok_def address_ok)

end

interpretation he_rf: register_file HostEndpoint_RF
  by unfold_locales (simp_all add: rf_defs max_address_def)

interpretation cr_rf: register_file ConfigResponse_RF
  by unfold_locales (simp_all add: rf_defs max_address_def)

interpretation hbs_rf: register_file HicannBufferStart_RF
  by unfold_locales (simp_all add: rf_defs max_address_def)

interpretation hbz_rf: register_file HicannBufferSize_RF
  by unfold_locales (simp_all add: rf_defs max_address_def)

interpretation hbt_rf: register_file HicannBufferFullThreshold_RF
  by unfold_locales (simp_all add: rf_defs max_address_def)

interpretation hnb_rf: register_file HicannNotificationBehaviour_RF
  by unfold_locales (simp_all add: rf_defs max_address_def)

interpretation htp_rf: register_file HicannTracePktClosure_RF
  by unfold_locales (simp_all add: rf_defs max_address_def)

interpretation hbi_rf: register_file HicannBufferInit_RF
  by unfold_locales (simp_all add: rf_defs max_address_def)

interpretation hbr_rf: register_file HicannBufferCounterReset_RF
  by unfold_locales (simp_all add: rf_defs max_address_def)

interpretation tbs_rf: register_file TraceBufferStart_RF
  by unfold_locales (simp_all add: rf_defs max_address_def)

interpretation tbz_rf: register_file TraceBufferSize_RF
  by unfold_locales (simp_all add: rf_defs max_address_def)

interpretation tbt_rf: register_file TraceBufferFullThreshold_RF
  by unfold_locales (simp_all add: rf_defs max_address_def)

interpretation tbc_rf: register_file TraceBufferCounter_RF
  by unfold_locales (simp_all add: rf_defs max_address_def)

interpretation tbr_rf: register_file TraceBufferCounterReset_RF
  by unfold_locales (simp_all add: rf_defs max_address_def)

interpretation tbi_rf: register_file TraceBufferInit_RF
  by unfold_locales (simp_all add: rf_defs max_address_def)

interpretation tnb_rf: register_file TraceNotificationBehaviour_RF
  by unfold_locales (simp_all add: rf_defs max_address_def)

interpretation info_rf: register_file Info_RF
  by unfold_locales (simp_all add: rf_defs max_address_def)

subsection \<open>Fields that keep the promise\<close>

interpretation he_node: lossless_field HostEndpoint_node_id HostEndpoint_set_node_id "take_bit 16"
  by unfold_locales (simp_all add: rf_simps)

interpretation he_pd: lossless_field HostEndpoint_protection_domain HostEndpoint_set_protection_domain "take_bit 16"
  by unfold_locales (simp_all add: rf_simps)

interpretation he_vpid: lossless_field HostEndpoint_vpid HostEndpoint_set_vpid "take_bit 10"
  by unfold_locales (simp_all add: rf_simps)

interpretation he_mode: lossless_field HostEndpoint_mode HostEndpoint_set_mode "take_bit 6"
  by unfold_locales (simp_all add: rf_simps)

interpretation he_np: disjoint_fields
  HostEndpoint_node_id HostEndpoint_set_node_id "take_bit 16"
  HostEndpoint_protection_domain HostEndpoint_set_protection_domain "take_bit 16"
  by unfold_locales (simp add: rf_defs lit_mask bf_write_commute)

interpretation he_nv: disjoint_fields
  HostEndpoint_node_id HostEndpoint_set_node_id "take_bit 16"
  HostEndpoint_vpid HostEndpoint_set_vpid "take_bit 10"
  by unfold_locales (simp add: rf_defs lit_mask bf_write_commute)

interpretation he_nm: disjoint_fields
  HostEndpoint_node_id HostEndpoint_set_node_id "take_bit 16"
  HostEndpoint_mode HostEndpoint_set_mode "take_bit 6"
  by unfold_locales (simp add: rf_defs lit_mask bf_write_commute)

interpretation he_pv: disjoint_fields
  HostEndpoint_protection_domain HostEndpoint_set_protection_domain "take_bit 16"
  HostEndpoint_vpid HostEndpoint_set_vpid "take_bit 10"
  by unfold_locales (simp add: rf_defs lit_mask bf_write_commute)

interpretation he_pm: disjoint_fields
  HostEndpoint_protection_domain HostEndpoint_set_protection_domain "take_bit 16"
  HostEndpoint_mode HostEndpoint_set_mode "take_bit 6"
  by unfold_locales (simp add: rf_defs lit_mask bf_write_commute)

interpretation he_vm: disjoint_fields
  HostEndpoint_vpid HostEndpoint_set_vpid "take_bit 10"
  HostEndpoint_mode HostEndpoint_set_mode "take_bit 6"
  by unfold_locales (simp add: rf_defs lit_mask bf_write_commute)

interpretation cr_address: lossless_field ConfigResponse_address ConfigResponse_set_address "\<lambda>v. v"
  by unfold_locales (simp_all add: rf_simps)

interpretation hbs_data: lossless_field HicannBufferStart_data HicannBufferStart_set_data "\<lambda>v. v"
  by unfold_locales (simp_all add: rf_simps)

interpretation tbs_data: lossless_field TraceBufferStart_data TraceBufferStart_set_data "\<lambda>v. v"
  by unfold_locales (simp_all add: rf_simps)

interpretation hbr_reset: lossless_field HicannBufferCounterReset_reset HicannBufferCounterReset_set_reset "\<lambda>v. v"
  by unfold_locales (simp_all add: rf_simps)

interpretation tbr_reset: lossless_field TraceBufferCounterReset_reset TraceBufferCounterReset_set_reset "\<lambda>v. v"
  by unfold_locales (simp_all add: rf_simps)

interpretation hbz_data: field_writer HicannBufferSize_data HicannBufferSize_set_data "\<lambda>v. v"
  by unfold_locales (simp_all add: rf_simps)

interpretation hbt_data: field_writer HicannBufferFullThreshold_data HicannBufferFullThreshold_set_data "\<lambda>v. v"
  by unfold_locales (simp_all add: rf_simps)

interpretation htp_timeout: field_writer HicannTracePktClosure_timeout HicannTracePktClosure_set_timeout "\<lambda>v. v"
  by unfold_locales (simp_all add: rf_simps)

interpretation tbz_data: field_writer TraceBufferSize_data TraceBufferSize_set_data "\<lambda>v. v"
  by unfold_locales (simp_all add: rf_simps)

interpretation tbt_data: field_writer TraceBufferFullThreshold_data TraceBufferFullThreshold_set_data "\<lambda>v. v"
  by unfold_locales (simp_all add: rf_simps)

interpretation hbi_start: field_writer HicannBufferInit_start HicannBufferInit_set_start "\<lambda>v. v"
  by unfold_locales (simp_all add: rf_simps)

interpretation tbi_start: field_writer TraceBufferInit_start TraceBufferInit_set_start "\<lambda>v. v"
  by unfold_locales (simp_all add: rf_simps)

interpretation hnb_timeout: field_writer HicannNotificationBehaviour_timeout HicannNotificationBehaviour_set_timeout "\<lambda>v. v"
  by unfold_locales (simp_all add: rf_simps)

interpretation hnb_frequency: field_writer HicannNotificationBehaviour_frequency HicannNotificationBehaviour_set_frequency "\<lambda>v. v"
  by unfold_locales (simp_all add: rf_simps)

interpretation tnb_timeout: field_writer TraceNotificationBehaviour_timeout TraceNotificationBehaviour_set_timeout "\<lambda>v. v"
  by unfold_locales (simp_all add: rf_simps)

interpretation tnb_frequency: field_writer TraceNotificationBehaviour_frequency TraceNotificationBehaviour_set_frequency "\<lambda>v. v"
  by unfold_locales (simp_all add: rf_simps)

subsection \<open>Fields whose setter only sets bits\<close>

interpretation info_guid: sticky_field Info_guid Info_set_guid 24
  by unfold_locales (simp_all add: rf_simps)

interpretation info_ndid: sticky_field Info_ndid Info_set_ndid 16
  by unfold_locales (simp_all add: rf_simps)

interpretation info_waferid: sticky_field Info_waferid Info_set_waferid 8
  by unfold_locales (simp_all add: rf_simps)

interpretation info_socketid: sticky_field Info_socketid Info_set_socketid 4
  by unfold_locales (simp_all add: rf_simps)

interpretation info_edgeid: sticky_field Info_edgeid Info_set_edgeid 2
  by unfold_locales (simp_all add: rf_simps)

subsection \<open>Properties of the register files\<close>

text \<open>
  A \<^verbatim>\<open>HostEndpoint\<close> built from four values reads back each of them, cut to the width of its
  field (16, 16, 10 and 6 bits), whatever the other three are, and uses no bit above the 48th.
\<close>

theorem HostEndpoint_new_fields:
  "HostEndpoint_node_id (HostEndpoint_new n p v m) = take_bit 16 n
   \<and> HostEndpoint_protection_domain (HostEndpoint_new n p v m) = take_bit 16 p
   \<and> HostEndpoint_vpid (HostEndpoint_new n p v m) = take_bit 10 v
   \<and> HostEndpoint_mode (HostEndpoint_new n p v m) = take_bit 6 m
   \<and> drop_bit 48 (HostEndpoint_raw (HostEndpoint_new n p v m)) = 0"
proof -
  have "drop_bit 48 (HostEndpoint_raw (HostEndpoint_new n p v m)) = 0"
    by (rule bit_eqI) (auto simp: rf_defs lit_mask bf_bits bit_simps)
  then show ?thesis by (simp add: rf_simps)
qed

text \<open>
  Each setter of \<^verbatim>\<open>HostEndpoint\<close> stores its value, cut to the field, and leaves the other
  three fields as they were.
\<close>

theorem HostEndpoint_setters_independent:
  "HostEndpoint_node_id (HostEndpoint_set_node_id x r) = take_bit 16 x
   \<and> HostEndpoint_protection_domain (HostEndpoint_set_node_id x r) = HostEndpoint_protection_domain r
   \<and> HostEndpoint_vpid (HostEndpoint_set_node_id x r) = HostEndpoint_vpid r
   \<and> HostEndpoint_mode (HostEndpoint_set_node_id x r) = HostEndpoint_mode r
   \<and> HostEndpoint_protection_domain (HostEndpoint_set_protection_domain x r) = take_bit 16 x
   \<and> HostEndpoint_node_id (HostEndpoint_set_protection_domain x r) = HostEndpoint_node_id r
   \<and> HostEndpoint_vpid (HostEndpoint_set_protection_domain x r) = HostEndpoint_vpid r
   \<and> HostEndpoint_mode (HostEndpoint_set_protection_domain x r) = HostEndpoint_mode r
   \<and> HostEndpoint_vpid (HostEndpoint_set_vpid x r) = take_bit 10 x
   \<and> HostEndpoint_node_id (HostEndpoint_set_vpid x r) = HostEndpoint_node_id r
   \<and> HostEndpoint_protection_domain (HostEndpoint_set_vpid x r) = HostEndpoint_protection_domain r
   \<and> HostEndpoint_mode (HostEndpoint_set_vpid x r) = HostEndpoint_mode r
   \<and> HostEndpoint_mode (HostEndpoint_set_mode x r) = take_bit 6 x
   \<and> HostEndpoint_node_id (HostEndpoint_set_mode x r) = HostEndpoint_node_id r
   \<and> HostEndpoint_protection_domain (HostEndpoint_set_mode x r) = HostEndpoint_protection_domain r
   \<and> HostEndpoint_vpid (HostEndpoint_set_mode x r) = HostEndpoint_vpid r"
  by (simp add: he_node.rd_wr he_pd.rd_wr he_vpid.rd_wr he_mode.rd_wr
      he_np.rd1_wr2 he_np.rd2_wr1 he_nv.rd1_wr2 he_nv.rd2_wr1 he_nm.rd1_wr2 he_nm.rd2_wr1
      he_pv.rd1_wr2 he_pv.rd2_wr1 he_pm.rd1_wr2 he_pm.rd2_wr1 he_vm.rd1_wr2 he_vm.rd2_wr1)

text \<open>
  C36: the constructor of a notification behaviour packs both values losslessly, but each of its
  setters overwrites the whole register, so setting one field zeroes the other (for both the
  hicann and the trace register file).
\<close>

theorem NotificationBehaviour_setters_clobber:
  "HicannNotificationBehaviour_timeout (HicannNotificationBehaviour_new t f) = t
   \<and> HicannNotificationBehaviour_frequency (HicannNotificationBehaviour_new t f) = f
   \<and> HicannNotificationBehaviour_timeout (HicannNotificationBehaviour_set_timeout t h) = t
   \<and> HicannNotificationBehaviour_frequency (HicannNotificationBehaviour_set_timeout t h) = 0
   \<and> HicannNotificationBehaviour_frequency (HicannNotificationBehaviour_set_frequency f h) = f
   \<and> HicannNotificationBehaviour_timeout (HicannNotificationBehaviour_set_frequency f h) = 0
   \<and> TraceNotificationBehaviour_timeout (TraceNotificationBehaviour_new t f) = t
   \<and> TraceNotificationBehaviour_frequency (TraceNotificationBehaviour_new t f) = f
   \<and> TraceNotificationBehaviour_timeout (TraceNotificationBehaviour_set_timeout t r) = t
   \<and> TraceNotificationBehaviour_frequency (TraceNotificationBehaviour_set_timeout t r) = 0
   \<and> TraceNotificationBehaviour_frequency (TraceNotificationBehaviour_set_frequency f r) = f
   \<and> TraceNotificationBehaviour_timeout (TraceNotificationBehaviour_set_frequency f r) = 0"
  by (simp add: rf_simps)

text \<open>
  An \<^verbatim>\<open>Info\<close> built from five values reads back each of them, cut to the width of its field
  (24, 16, 8, 4 and 2 bits).
\<close>

theorem Info_new_fields:
  "Info_guid (Info_new g n w s e) = take_bit 24 g
   \<and> Info_ndid (Info_new g n w s e) = n
   \<and> Info_waferid (Info_new g n w s e) = w
   \<and> Info_socketid (Info_new g n w s e) = take_bit 4 s
   \<and> Info_edgeid (Info_new g n w s e) = take_bit 2 e"
  by (simp add: rf_simps)

text \<open>
  \<^verbatim>\<open>Info::ndid(value)\<close> does not replace the node id: it ORs the value onto the bits already
  there, leaves the other fields alone, and stores the value exactly when the old node id has
  no bit outside it. The setters of \<^verbatim>\<open>HostEndpoint\<close> clear the field first; this one does not.
\<close>

theorem Info_set_ndid_ors:
  "Info_ndid (Info_set_ndid v r) = Info_ndid r OR v
   \<and> (Info_ndid (Info_set_ndid v r) = v \<longleftrightarrow> Info_ndid r AND NOT v = 0)
   \<and> Info_guid (Info_set_ndid v r) = Info_guid r
   \<and> Info_waferid (Info_set_ndid v r) = Info_waferid r
   \<and> Info_socketid (Info_set_ndid v r) = Info_socketid r
   \<and> Info_edgeid (Info_set_ndid v r) = Info_edgeid r"
  using info_ndid.rd_or [of v r] info_ndid.exact_iff [of v r] by (simp add: rf_simps)

text \<open>
  The single-field registers read back what their constructor or setter stored: the 64-bit
  addresses, the 32-bit sizes, thresholds and time-outs, and the one-bit flags, whose raw value
  is 0 or 1.
\<close>

theorem single_field_registers_roundtrip:
  "ConfigResponse_address (ConfigResponse_new a) = a
   \<and> HicannBufferStart_data (HicannBufferStart_new a) = a
   \<and> TraceBufferStart_data (TraceBufferStart_new a) = a
   \<and> HicannBufferSize_data (HicannBufferSize_new d) = d
   \<and> TraceBufferSize_data (TraceBufferSize_new d) = d
   \<and> HicannBufferFullThreshold_data (HicannBufferFullThreshold_new d) = d
   \<and> TraceBufferFullThreshold_data (TraceBufferFullThreshold_new d) = d
   \<and> HicannTracePktClosure_timeout (HicannTracePktClosure_new d) = d
   \<and> HicannBufferInit_start (HicannBufferInit_new b) = b
   \<and> TraceBufferInit_start (TraceBufferInit_new b) = b
   \<and> HicannBufferCounterReset_reset (HicannBufferCounterReset_new b) = b
   \<and> TraceBufferCounterReset_reset (TraceBufferCounterReset_new b) = b
   \<and> HicannBufferInit_raw (HicannBufferInit_new b) = of_bool b
   \<and> TraceBufferInit_raw (TraceBufferInit_new b) = of_bool b
   \<and> HicannBufferCounterReset_raw (HicannBufferCounterReset_new b) = of_bool b
   \<and> TraceBufferCounterReset_raw (TraceBufferCounterReset_new b) = of_bool b"
  by (simp add: rf_simps)

definition rf_row :: "'rf RF \<Rightarrow> u64 \<times> bool \<times> bool" where
  "rf_row T = (rf_address T, readable T, writable T)"

definition register_table :: "(u64 \<times> bool \<times> bool) list" where
  "register_table =
    [rf_row HostEndpoint_RF, rf_row ConfigResponse_RF, rf_row HicannBufferStart_RF,
     rf_row HicannBufferSize_RF, rf_row HicannBufferFullThreshold_RF,
     rf_row HicannNotificationBehaviour_RF, rf_row HicannTracePktClosure_RF,
     rf_row HicannBufferInit_RF, rf_row HicannBufferCounterReset_RF, rf_row TraceBufferStart_RF,
     rf_row TraceBufferSize_RF, rf_row TraceBufferFullThreshold_RF, rf_row TraceBufferCounter_RF,
     rf_row TraceBufferCounterReset_RF, rf_row TraceBufferInit_RF,
     rf_row TraceNotificationBehaviour_RF, rf_row Info_RF]"

text \<open>
  The addresses of the seventeen register files are pairwise different, quad-word aligned and
  within \<^verbatim>\<open>max_address\<close>, so no two registers overlap and every \<^verbatim>\<open>static_assert\<close> on an address
  holds; each register can be read or written, only the two counter resets are write-only and
  only the trace counter is read-only.
\<close>

theorem register_table_sound:
  "distinct (map fst register_table)
   \<and> list_all (\<lambda>(a, rd, wr). a \<le> max_address \<and> a AND 7 = 0 \<and> (rd \<or> wr)) register_table
   \<and> map fst (filter (\<lambda>(a, rd, wr). \<not> rd) register_table) = [0x50a0, 0x5020]
   \<and> map fst (filter (\<lambda>(a, rd, wr). \<not> wr) register_table) = [0x5018]"
  by (simp add: register_table_def rf_row_def rf_defs max_address_def)

end
