(* ===== verification/Endpoint.thy ===== *)
theory Endpoint
  imports Connection Physical_Buffer Ring_Buffer Register_Laws
begin

text \<open>
  \<^verbatim>\<open>Endpoint\<close> of \<^verbatim>\<open>include/nhtl-extoll/connection.h\<close> and \<^verbatim>\<open>src/nhtl-extoll/connection.cpp\<close>:
  two connections, the poller, the physical buffer and two ring buffers, constructed in the order
  of declaration and destroyed in the reverse order, also when a later member or the body of the
  constructor throws. A destructor may drain forever, so construction and destruction are
  option-valued. Packets that the polling thread counts are those of the schedules of the two
  ring buffers' destructors.
\<close>

subsection \<open>State\<close>

record Endpoint =
  m_node :: u16
  m_rra :: Connection
  m_rma :: Connection
  poller :: NotificationPoller
  buffer :: PhysicalBuffer
  hicann_ring_buffer :: RingBuffer
  trace_ring_buffer :: RingBuffer

definition hicann_address :: u64 where
  "hicann_address = push_bit 48 0x2a1b"

definition trace_address :: u64 where
  "trace_address = push_bit 48 0x0ca5"

definition get_node :: "Endpoint \<Rightarrow> u16" where
  "get_node ep = m_node ep"

definition get_rra_port :: "Endpoint \<Rightarrow> u64" where
  "get_rra_port ep = get_port (m_rra ep)"

definition get_rra_handle :: "Endpoint \<Rightarrow> u64" where
  "get_rra_handle ep = get_handle (m_rra ep)"

definition get_rra_vpid :: "Endpoint \<Rightarrow> u16" where
  "get_rra_vpid ep = get_vpid (m_rra ep)"

definition get_rma_port :: "Endpoint \<Rightarrow> u64" where
  "get_rma_port ep = get_port (m_rma ep)"

definition get_rma_handle :: "Endpoint \<Rightarrow> u64" where
  "get_rma_handle ep = get_handle (m_rma ep)"

definition get_rma_vpid :: "Endpoint \<Rightarrow> u16" where
  "get_rma_vpid ep = get_vpid (m_rma ep)"

subsection \<open>Ping\<close>

text \<open>
  \<open>ping_loop X port i wait\<close> has \<open>i\<close> attempts left and sleeps \<open>wait\<close> microseconds next. The
  status of the posted request is overwritten unread, and every probe status other than
  \<^verbatim>\<open>RMA2_NO_NOTI\<close> counts as an answer.
\<close>

fun ping_loop :: "'e ext \<Rightarrow> u64 \<Rightarrow> nat \<Rightarrow> nat \<Rightarrow> 'e world \<Rightarrow> bool \<times> 'e world" where
  "ping_loop X port 0 wait w = (False, w)"
| "ping_loop X port (Suc i) wait w =
     (let probe = answer X (rma2_noti_probe port) w; w1 = after X (rma2_noti_probe port) w in
      if r_status probe = RMA2_NO_NOTI
      then ping_loop X port i (wait * 2) (after X (sleep_us wait) w1)
      else (True, after X (rma2_noti_free port (r_out probe)) w1))"

definition ping_request :: "Endpoint \<Rightarrow> ext_call" where
  "ping_request ep =
     rma2_post_get_qw_direct (get_rra_port ep) (get_rra_handle ep) (response_address (buffer ep))
       8 0x8000 RMA2_COMPLETER_NOTIFICATION"

definition ping :: "'e ext \<Rightarrow> Endpoint \<Rightarrow> 'e world \<Rightarrow> bool \<times> 'e world" where
  "ping X ep w = ping_loop X (get_rra_port ep) 20 10 (after X (ping_request ep) w)"

subsection \<open>Register access and sending\<close>

text \<open>The completer notification both transactions wait for and free.\<close>

definition complete ::
  "'e ext \<Rightarrow> (u16 \<times> u64 \<Rightarrow> exn) \<Rightarrow> Endpoint \<Rightarrow> u64 \<Rightarrow> ('e world, failure, unit) comp" where
  "complete X E ep address =
     andthen (call X (rma2_noti_get_block (get_rra_port ep))) (\<lambda>noti.
     andthen (throw_on_error E (r_status noti) (get_node ep, address)) (\<lambda>_.
     andthen (call X (rma2_noti_free (get_rra_port ep) (r_out noti))) (\<lambda>freed.
     throw_on_error E (r_status freed) (get_node ep, address))))"

definition rra_read :: "'e ext \<Rightarrow> Endpoint \<Rightarrow> u64 \<Rightarrow> ('e world, failure, u64) comp" where
  "rra_read X ep address =
     andthen (call X (rma2_post_get_qw_direct (get_rra_port ep) (get_rra_handle ep)
       (response_address (buffer ep)) 8 address RMA2_COMPLETER_NOTIFICATION)) (\<lambda>posted.
     andthen (throw_on_error (\<lambda>(n, a). FailedToRead n a) (r_status posted) (get_node ep, address)) (\<lambda>_.
     andthen (complete X (\<lambda>(n, a). FailedToRead n a) ep address) (\<lambda>_.
     read_response)))"

definition rra_write :: "'e ext \<Rightarrow> Endpoint \<Rightarrow> u64 \<Rightarrow> u64 \<Rightarrow> ('e world, failure, unit) comp" where
  "rra_write X ep address value =
     andthen (call X (rma2_post_immediate_put (get_rra_port ep) (get_rra_handle ep) 8 value address
       RMA2_COMPLETER_NOTIFICATION)) (\<lambda>posted.
     andthen (throw_on_error (\<lambda>(n, a). FailedToWrite n a) (r_status posted) (get_node ep, address)) (\<lambda>_.
     complete X (\<lambda>(n, a). FailedToWrite n a) ep address))"

text \<open>
  The two templates. Their \<^verbatim>\<open>static_assert\<close>s are \<^const>\<open>rf_read_ok\<close> and \<^const>\<open>rf_write_ok\<close>: an
  instantiation that violates one does not compile, so it has no behaviour and is marked
  \<^const>\<open>Undefined\<close>.
\<close>

definition rra_read_rf :: "'e ext \<Rightarrow> 'rf RF \<Rightarrow> Endpoint \<Rightarrow> ('e world, failure, 'rf) comp" where
  "rra_read_rf X T ep =
     (if rf_read_ok T
      then andthen (rra_read X ep (rf_address T)) (\<lambda>raw. ret (of_raw T raw))
      else fail Undefined)"

definition rra_write_rf :: "'e ext \<Rightarrow> 'rf RF \<Rightarrow> Endpoint \<Rightarrow> 'rf \<Rightarrow> ('e world, failure, unit) comp" where
  "rra_write_rf X T ep rf =
     (if rf_write_ok T then rra_write X ep (rf_address T) (raw_of T rf) else fail Undefined)"

definition rma_send :: "'e ext \<Rightarrow> Endpoint \<Rightarrow> u64 \<Rightarrow> ('e world, failure, unit) comp" where
  "rma_send X ep quad_words =
     andthen (call X (rma2_post_put_qw_direct (get_rma_port ep) (get_rma_handle ep)
       (send_address (buffer ep)) (8 * quad_words) trace_address RMA2_NO_NOTIFICATION)) (\<lambda>sent.
     throw_on_error (\<lambda>(n, a). FailedToWrite n a) (r_status sent) (get_node ep, trace_address))"

subsection \<open>Destructors in sequence\<close>

text \<open>The destructors of the members; the poller is alive beside the world.\<close>

type_synonym 'e alive = "NotificationPoller \<times> 'e world"

definition del_poller :: "(NotificationPoller, 'e) dtor" where
  "del_poller = (\<lambda>(p, w). Some (Inr (), (NotificationPoller_delete p, w)))"

definition del_buffer :: "'e ext \<Rightarrow> PhysicalBuffer \<Rightarrow> (NotificationPoller, 'e) dtor" where
  "del_buffer X b = (\<lambda>(p, w). case PhysicalBuffer_delete X b w of (r, w') \<Rightarrow> Some (r, (p, w')))"

definition del_ring :: "'e ext \<Rightarrow> (nat \<Rightarrow> batch list) \<Rightarrow> RingBuffer \<Rightarrow> (NotificationPoller, 'e) dtor" where
  "del_ring X sched rb = (\<lambda>(p, w).
     case RingBuffer_delete X sched rb p w of
       None \<Rightarrow> None
     | Some (Inl f) \<Rightarrow> Some (Inl f, (p, w))
     | Some (Inr (p', w')) \<Rightarrow> Some (Inr (), (p', w')))"

text \<open>
  Stack unwinding: an exception destroys the members constructed so far and goes on; only what
  is thrown unwinds.
\<close>

definition unwind :: "failure \<Rightarrow> (NotificationPoller, 'e) dtor list \<Rightarrow> 'e alive \<Rightarrow> ((failure + 'a) \<times> 'e alive) option" where
  "unwind f ds s =
     (case f of
        Throw e \<Rightarrow>
          (case destroy ds s of
             None \<Rightarrow> None
           | Some (Inl g, s') \<Rightarrow> Some (Inl g, s')
           | Some (Inr _, s') \<Rightarrow> Some (Inl f, s'))
      | _ \<Rightarrow> Some (Inl f, s))"

text \<open>Constructs one member; \<open>ds\<close> are the destructors of those before it, the latest first.\<close>

definition member ::
  "('e world, failure, 'a) comp \<Rightarrow> (NotificationPoller, 'e) dtor list
   \<Rightarrow> ('a \<Rightarrow> 'e alive \<Rightarrow> ((failure + 'b) \<times> 'e alive) option)
   \<Rightarrow> 'e alive \<Rightarrow> ((failure + 'b) \<times> 'e alive) option" where
  "member c ds k = (\<lambda>(p, w).
     case c w of (Inl f, w') \<Rightarrow> unwind f ds (p, w') | (Inr x, w') \<Rightarrow> k x (p, w'))"

subsection \<open>Construction and destruction\<close>

definition Endpoint_dtors ::
  "'e ext \<Rightarrow> (nat \<Rightarrow> batch list) \<Rightarrow> (nat \<Rightarrow> batch list) \<Rightarrow> Endpoint \<Rightarrow> (NotificationPoller, 'e) dtor list" where
  "Endpoint_dtors X trace_sched hicann_sched ep =
     [del_ring X trace_sched (trace_ring_buffer ep),
      del_ring X hicann_sched (hicann_ring_buffer ep),
      del_buffer X (buffer ep),
      del_poller,
      del_connection X (m_rma ep),
      del_connection X (m_rra ep)]"

definition Endpoint_delete ::
  "'e ext \<Rightarrow> (nat \<Rightarrow> batch list) \<Rightarrow> (nat \<Rightarrow> batch list) \<Rightarrow> Endpoint \<Rightarrow> 'e world
   \<Rightarrow> ((failure + unit) \<times> 'e alive) option" where
  "Endpoint_delete X trace_sched hicann_sched ep w =
     destroy (Endpoint_dtors X trace_sched hicann_sched ep) (poller ep, w)"

definition no_response :: failure where
  "no_response = Throw (runtime_error (''Connection Failed: No FPGA response!'' @ [CHR 0x0A]))"

text \<open>The constructor's body, with every member built.\<close>

definition Endpoint_body ::
  "'e ext \<Rightarrow> (nat \<Rightarrow> batch list) \<Rightarrow> (nat \<Rightarrow> batch list) \<Rightarrow> Endpoint
   \<Rightarrow> 'e alive \<Rightarrow> ((failure + Endpoint) \<times> 'e alive) option" where
  "Endpoint_body X trace_sched hicann_sched ep = (\<lambda>(p, w).
     case ping X ep w of
       (True, w') \<Rightarrow> Some (Inr ep, (p, w'))
     | (False, w') \<Rightarrow> unwind no_response (Endpoint_dtors X trace_sched hicann_sched ep) (p, w'))"

text \<open>
  Before the poller is constructed its place holds a poller that nothing reads. \<open>hc\<close> and \<open>tc\<close>
  are the contents of the two fresh allocations.
\<close>

definition Endpoint_new ::
  "'e ext \<Rightarrow> (nat \<Rightarrow> batch list) \<Rightarrow> (nat \<Rightarrow> batch list) \<Rightarrow> (u64 \<Rightarrow> u64) \<Rightarrow> (u64 \<Rightarrow> u64) \<Rightarrow> u16
   \<Rightarrow> 'e world \<Rightarrow> ((failure + Endpoint) \<times> 'e alive) option" where
  "Endpoint_new X trace_sched hicann_sched tc hc n w =
     member (Connection_new X n True) [] (\<lambda>rra.
     member (Connection_new X n False) [del_connection X rra] (\<lambda>rma (_, w2).
     let port = get_port rma; handle = get_handle rma;
         p = NotificationPoller_new port;
         ds = [del_poller, del_connection X rma, del_connection X rra] in
     member (PhysicalBuffer_new X) ds (\<lambda>b.
     member (RingBuffer_new X port handle 1 hc) (del_buffer X b # ds) (\<lambda>hicann.
     member (RingBuffer_new X port handle 2048 tc) (del_ring X hicann_sched hicann # del_buffer X b # ds)
       (\<lambda>trace.
     Endpoint_body X trace_sched hicann_sched
       \<lparr>m_node = n, m_rra = rra, m_rma = rma, poller = p, buffer = b,
        hicann_ring_buffer = hicann, trace_ring_buffer = trace\<rparr>)))
       (p, w2)))
     (NotificationPoller_new 0, w)"

end
