(* ===== verification/Endpoint_Access.thy ===== *)
theory Endpoint_Access
  imports Endpoint
begin

text \<open>
  What an endpoint asks of the FPGA: the ping, single register transactions and sequences of
  register writes. Register access is the interface \<open>register_port\<close>, which \<open>Configure_Fpga\<close> is
  written against, and its extension \<open>register_device\<close> for an FPGA whose registers answer.
\<close>

subsection \<open>Ping\<close>

text \<open>How the loop ends: \<open>k\<close> probes without an answer, each followed by its sleep, then perhaps one with.\<close>

definition ping_outcome :: "'e ext \<Rightarrow> u64 \<Rightarrow> nat \<Rightarrow> nat \<Rightarrow> 'e world \<Rightarrow> bool \<Rightarrow> 'e world \<Rightarrow> bool" where
  "ping_outcome X port i wait w b w' \<longleftrightarrow> extends w w' \<and> (\<exists>k noti v. k \<le> i \<and> b = (k < i) \<and> extends w v
    \<and> (if b then r_status (answer X (rma2_noti_probe port) v) \<noteq> RMA2_NO_NOTI
           \<and> noti = r_out (answer X (rma2_noti_probe port) v) else v = w')
    \<and> asked w v = concat (map (\<lambda>j. [rma2_noti_probe port, sleep_us (wait * 2 ^ j)]) [0..<k])
    \<and> asked w w' = asked w v @ (if b then [rma2_noti_probe port, rma2_noti_free port noti] else []))"

lemma ping_answered:
  assumes "r_status (answer X (rma2_noti_probe port) w) \<noteq> RMA2_NO_NOTI"
    and "w' = after X (rma2_noti_free port (r_out (answer X (rma2_noti_probe port) w))) (after X (rma2_noti_probe port) w)"
  shows "ping_outcome X port (Suc i) wait w True w'"
proof -
  have "extends w w'" "asked w w' = [rma2_noti_probe port, rma2_noti_free port (r_out (answer X (rma2_noti_probe port) w))]"
    unfolding assms(2) by (blast intro: extends_trans) (simp add: asked_def)
  with assms(1) show ?thesis unfolding ping_outcome_def
    by (intro conjI exI [of _ 0] exI [of _ "r_out (answer X (rma2_noti_probe port) w)"] exI [of _ w]) simp_all
qed

lemma ping_waits:
  assumes rest: "ping_outcome X port i (wait * 2) w2 b w'"
    and w2: "extends w w2" "asked w w2 = [rma2_noti_probe port, sleep_us wait]"
  shows "ping_outcome X port (Suc i) wait w b w'"
proof -
  let ?p = "rma2_noti_probe port"
  from rest obtain k noti v where
    k: "extends w2 w'" "k \<le> i" "b = (k < i)" "extends w2 v"
      "if b then r_status (answer X ?p v) \<noteq> RMA2_NO_NOTI \<and> noti = r_out (answer X ?p v) else v = w'"
    and log: "asked w2 v = concat (map (\<lambda>j. [?p, sleep_us (wait * 2 * 2 ^ j)]) [0..<k])"
      "asked w2 w' = asked w2 v @ (if b then [?p, rma2_noti_free port noti] else [])"
    unfolding ping_outcome_def by blast
  have "asked w v = concat (map (\<lambda>j. [?p, sleep_us (wait * 2 ^ j)]) [0..<Suc k])"
    unfolding upt_Suc_conv using asked_trans [OF w2(1) k(4)] w2(2) log(1)
    by (simp add: o_def mult.assoc)
  moreover have "asked w w' = asked w v @ (if b then [?p, rma2_noti_free port noti] else [])"
    using asked_trans [OF w2(1) k(1)] asked_trans [OF w2(1) k(4)] log(2) by simp
  ultimately show ?thesis
    unfolding ping_outcome_def using k extends_trans [OF w2(1) k(1)] extends_trans [OF w2(1) k(4)]
    by (intro conjI exI [of _ "Suc k"] exI [of _ noti] exI [of _ v]) simp_all
qed

lemma ping_loop_outcome: "ping_loop X port i wait w = (b, w') \<Longrightarrow> ping_outcome X port i wait w b w'"
proof (induction X port i wait w rule: ping_loop.induct)
  case (1 X port wait w)
  then show ?case by (auto simp: ping_outcome_def)
next
  case (2 X port i wait w)
  let ?w1 = "after X (rma2_noti_probe port) w"
  show ?case
  proof (cases "r_status (answer X (rma2_noti_probe port) w) = RMA2_NO_NOTI")
    case False
    with "2.prems" ping_answered [OF False, of w'] show ?thesis by (auto simp: Let_def)
  next
    case True
    with "2.prems" have "ping_loop X port i (wait * 2) (after X (sleep_us wait) ?w1) = (b, w')"
      by (simp add: Let_def)
    from "2.IH" [OF refl refl True this] show ?thesis
      by (rule ping_waits) (auto simp: asked_def intro: extends_trans)
  qed
qed

lemmas ping_loop_log = ping_loop_outcome [unfolded ping_outcome_def]

lemma ping_silent:
  assumes "ping X ep w = (b, w')"
  shows "extends w w' \<and> exchanged w w' = []"
proof -
  let ?q = "ping_request ep"
  from assms have "ping_loop X (get_rra_port ep) 20 10 (after X ?q w) = (b, w')"
    by (simp add: ping_def)
  from ping_loop_log [OF this] obtain k noti where log: "extends (after X ?q w) w'"
    "asked (after X ?q w) w' = concat (map (\<lambda>j. [rma2_noti_probe (get_rra_port ep), sleep_us (10 * 2 ^ j)]) [0..<k])
       @ (if b then [rma2_noti_probe (get_rra_port ep), rma2_noti_free (get_rra_port ep) noti] else [])"
    by metis
  have not_owning: "\<not> is_owning ?q"
    by (simp add: ping_request_def)
  have none: "filter is_owning (concat (map (\<lambda>j. [rma2_noti_probe p, sleep_us (10 * 2 ^ j)]) ks)) = []" for p ks
    by (induction ks) simp_all
  have "exchanged w w' = []"
    using asked_trans [OF extends_after log(1)]
    by (simp add: exchanged_def log(2) none not_owning [simplified])
  with extends_trans [OF extends_after log(1)] show ?thesis by blast
qed


text \<open>The microseconds a log sleeps.\<close>

fun slept :: "ext_call list \<Rightarrow> nat" where
  "slept [] = 0"
| "slept (sleep_us t # cs) = t + slept cs"
| "slept (_ # cs) = slept cs"

lemma slept_append [simp]: "slept (a @ b) = slept a + slept b"
  by (induction a rule: slept.induct) simp_all

lemma slept_doubling:
  "slept (concat (map (\<lambda>j. [rma2_noti_probe port, sleep_us (t * 2 ^ j)]) [0..<k])) + t = t * 2 ^ k"
  by (induction k) simp_all

lemma ping_always: "fst (ping (always st x) ep w) = (st \<noteq> RMA2_NO_NOTI)"
proof -
  have "fst (ping_loop (always st x) port i t v) = (st \<noteq> RMA2_NO_NOTI \<and> 0 < i)" for port i t v
    by (induction "always st x" port i t v rule: ping_loop.induct) (simp_all add: Let_def)
  then show ?thesis by (simp add: ping_def)
qed

subsection \<open>Register access\<close>

lemma complete_result:
  "\<exists>w'. complete X E ep address w =
     (if r_status (answer X (rma2_noti_get_block (get_rra_port ep)) w) = RMA2_SUCCESS
         \<and> r_status (answer X (rma2_noti_free (get_rra_port ep)
             (r_out (answer X (rma2_noti_get_block (get_rra_port ep)) w)))
             (after X (rma2_noti_get_block (get_rra_port ep)) w)) = RMA2_SUCCESS
      then Inr () else Inl (Throw (E (get_node ep, address))), w')
   \<and> extends w w'
   \<and> asked w w' = rma2_noti_get_block (get_rra_port ep) #
       (if r_status (answer X (rma2_noti_get_block (get_rra_port ep)) w) = RMA2_SUCCESS
        then [rma2_noti_free (get_rra_port ep) (r_out (answer X (rma2_noti_get_block (get_rra_port ep)) w))]
        else [])"
  by (auto simp: complete_def throw_on_error_def asked_def extends_def)

text \<open>The immediate puts in a log, as pairs of address and value.\<close>

fun writes :: "ext_call list \<Rightarrow> (u64 \<times> u64) list" where
  "writes [] = []"
| "writes (rma2_post_immediate_put port handle n value address spec # cs) = (address, value) # writes cs"
| "writes (_ # cs) = writes cs"

lemma writes_append [simp]: "writes (a @ b) = writes a @ writes b"
  by (induction a rule: writes.induct) simp_all

text \<open>
  The interface the configuration relies on: a write posts exactly the one value to the one
  address, also when it fails, and fails only with its own exception.
\<close>

locale register_port =
  fixes wr :: "u64 \<Rightarrow> u64 \<Rightarrow> ('e world, failure, unit) comp" and node :: u16
  assumes posts: "wr a v w = (r, w') \<Longrightarrow> extends w w' \<and> writes (asked w w') = [(a, v)]"
    and fails: "wr a v w = (Inl f, w') \<Longrightarrow> f = Throw (FailedToWrite node a)"

fun write_all ::
  "(u64 \<Rightarrow> u64 \<Rightarrow> ('e world, failure, unit) comp) \<Rightarrow> (u64 \<times> u64) list \<Rightarrow> ('e world, failure, unit) comp" where
  "write_all wr [] = ret ()"
| "write_all wr ((a, v) # ws) = andthen (wr a v) (\<lambda>_. write_all wr ws)"

context register_port
begin

lemma write_all_posts:
  assumes "write_all wr ws w = (r, w')"
  shows "extends w w' \<and> (case r of
      Inr _ \<Rightarrow> writes (asked w w') = ws
    | Inl f \<Rightarrow> \<exists>i < length ws. writes (asked w w') = take (Suc i) ws
        \<and> f = Throw (FailedToWrite node (fst (ws ! i))))"
  using assms
proof (induction ws arbitrary: w)
  case Nil
  then show ?case by auto
next
  case (Cons av ws)
  obtain a v where av: "av = (a, v)" by (cases av)
  obtain r1 w1 where one: "wr a v w = (r1, w1)" by (cases "wr a v w")
  from posts [OF one] have w1: "extends w w1" "writes (asked w w1) = [(a, v)]" by simp_all
  show ?case
  proof (cases r1)
    case (Inl f)
    with Cons.prems av one w1 fails [of a v w f w1] show ?thesis
      by (auto intro!: exI [of _ 0])
  next
    case (Inr u)
    with Cons.prems av one have rest: "write_all wr ws w1 = (r, w')" by simp
    note ih = Cons.IH [OF rest]
    from asked_trans [OF w1(1), of w'] ih w1(2)
    have log: "writes (asked w w') = (a, v) # writes (asked w1 w')" by simp
    show ?thesis
    proof (cases r)
      case (Inl f)
      with ih obtain i where "i < length ws" "writes (asked w1 w') = take (Suc i) ws"
        "f = Throw (FailedToWrite node (fst (ws ! i)))" by auto
      with Inl ih log av w1(1) show ?thesis
        by (auto intro!: exI [of _ "Suc i"] intro: extends_trans)
    next
      case (Inr u)
      with ih log av w1(1) show ?thesis by (auto intro: extends_trans)
    qed
  qed
qed

end

interpretation rra: register_port "rra_write X ep" "get_node ep" for X ep
proof
  fix a v w r w'
  assume wr: "rra_write X ep a v w = (r, w')"
  let ?put = "rma2_post_immediate_put (get_rra_port ep) (get_rra_handle ep) 8 v a RMA2_COMPLETER_NOTIFICATION"
  let ?w1 = "after X ?put w"
  obtain v' where c: "\<exists>b. complete X (\<lambda>(n, a). FailedToWrite n a) ep a ?w1 = (b, v')" "extends ?w1 v'"
    "writes (asked ?w1 v') = []"
    using complete_result [of X "\<lambda>(n, a). FailedToWrite n a" ep a ?w1] by (auto split: if_splits)
  have "w' = ?w1 \<or> w' = v'"
    using wr c(1) by (auto simp: rra_write_def throw_on_error_def split: if_splits)
  then show "extends w w' \<and> writes (asked w w') = [(a, v)]"
    using asked_trans [OF extends_after c(2)] extends_trans [OF extends_after c(2)] c(3) by auto
next
  fix a v w f w'
  assume "rra_write X ep a v w = (Inl f, w')"
  then show "f = Throw (FailedToWrite (get_node ep) a)"
    by (auto simp: rra_write_def complete_def throw_on_error_def split: if_splits)
qed

text \<open>
  An FPGA whose registers answer: every transaction of this endpoint succeeds, a put changes the
  register at its address and a get of a readable address copies the register to the response word;
  nothing else changes either. \<open>latch a\<close> is what register \<open>a\<close> keeps of its old value and the value
  written (a register with read-only fields does not keep all of it), and \<open>rd_ok\<close> says which addresses
  are readable; what a get of another address leaves in the response word is open.
\<close>

definition rra_call :: "Endpoint \<Rightarrow> ext_call \<Rightarrow> bool" where
  "rra_call ep c \<longleftrightarrow> (case c of
       rma2_post_immediate_put port handle n v a spec \<Rightarrow> port = get_rra_port ep
     | rma2_post_get_qw_direct port handle d n a spec \<Rightarrow> port = get_rra_port ep
     | rma2_noti_get_block port \<Rightarrow> port = get_rra_port ep
     | rma2_noti_free port noti \<Rightarrow> port = get_rra_port ep
     | _ \<Rightarrow> False)"

fun put_effect ::
  "Endpoint \<Rightarrow> (u64 \<Rightarrow> u64 \<Rightarrow> u64 \<Rightarrow> u64) \<Rightarrow> ext_call \<Rightarrow> (u64 \<Rightarrow> u64) \<Rightarrow> u64 \<Rightarrow> u64" where
  "put_effect ep latch (rma2_post_immediate_put port handle n v a spec) R =
     (if port = get_rra_port ep \<and> handle = get_rra_handle ep then R(a := latch a (R a) v) else R)"
| "put_effect ep latch _ R = R"

fun get_effect :: "Endpoint \<Rightarrow> ext_call \<Rightarrow> (u64 \<Rightarrow> u64) \<Rightarrow> u64 \<Rightarrow> u64" where
  "get_effect ep (rma2_post_get_qw_direct port handle dest n a spec) R x =
     (if port = get_rra_port ep \<and> handle = get_rra_handle ep \<and> dest = response_address (buffer ep)
      then R a else x)"
| "get_effect ep _ R x = x"

fun get_ok :: "(u64 \<Rightarrow> bool) \<Rightarrow> ext_call \<Rightarrow> bool" where
  "get_ok rd_ok (rma2_post_get_qw_direct port handle dest n a spec) = rd_ok a"
| "get_ok rd_ok _ = True"

definition register_fpga ::
  "'e ext \<Rightarrow> Endpoint \<Rightarrow> ('e \<Rightarrow> u64 \<Rightarrow> u64) \<Rightarrow> (u64 \<Rightarrow> u64 \<Rightarrow> u64 \<Rightarrow> u64) \<Rightarrow> (u64 \<Rightarrow> bool) \<Rightarrow> bool" where
  "register_fpga X ep regs latch rd_ok \<longleftrightarrow> (\<forall>c e m.
     (rra_call ep c \<longrightarrow> r_status (fst (X c e m)) = RMA2_SUCCESS)
     \<and> regs (fst (snd (X c e m))) = put_effect ep latch c (regs e)
     \<and> (get_ok rd_ok c \<longrightarrow> snd (snd (X c e m)) 0 = get_effect ep c (regs e) (m 0)))"

lemma w_mem_after: "w_mem (after X c w) = snd (snd (X c (w_env w) (w_mem w)))"
  by (simp add: after_def ask_def split: prod.splits)

lemma register_fpga_step:
  assumes "register_fpga X ep regs latch rd_ok"
  shows "rra_call ep c \<Longrightarrow> r_status (answer X c w) = RMA2_SUCCESS"
    and "regs (w_env (after X c w)) = put_effect ep latch c (regs (w_env w))"
    and "get_ok rd_ok c \<Longrightarrow> w_mem (after X c w) 0 = get_effect ep c (regs (w_env w)) (w_mem w 0)"
  using assms unfolding register_fpga_def answer_eq w_env_after w_mem_after by blast+

text \<open>What a write leaves in the registers.\<close>

definition latch_store ::
  "(u64 \<Rightarrow> u64 \<Rightarrow> u64 \<Rightarrow> u64) \<Rightarrow> u64 \<Rightarrow> u64 \<Rightarrow> (u64 \<Rightarrow> u64) \<Rightarrow> u64 \<Rightarrow> u64" where
  "latch_store latch a v R = R(a := latch a (R a) v)"

lemma rra_write_device:
  assumes "register_fpga X ep regs latch rd_ok"
  shows "\<exists>w'. rra_write X ep a v w = (Inr (), w')
    \<and> regs (w_env w') = latch_store latch a v (regs (w_env w))"
  using assms
  by (simp add: rra_write_def complete_def register_fpga_step(1,2) rra_call_def latch_store_def fun_upd_def)

lemma rra_read_device:
  assumes "register_fpga X ep regs latch rd_ok" and "rd_ok a"
  shows "\<exists>w'. rra_read X ep a w = (Inr (regs (w_env w) a), w') \<and> regs (w_env w') = regs (w_env w)"
  using assms(2)
  by (simp add: rra_read_def complete_def register_fpga_step [OF assms(1)] rra_call_def)

text \<open>
  The interface extended by reads and by what a device makes of both while it is live: writes
  succeed and change its state, reads of readable addresses succeed and return what the state has at
  the address, and both leave it live. The state can be the registers alone or more.
\<close>

locale register_device = register_port wr node
  for wr :: "u64 \<Rightarrow> u64 \<Rightarrow> ('e world, failure, unit) comp" and node :: u16 +
  fixes rd :: "u64 \<Rightarrow> ('e world, failure, u64) comp" and state :: "'e \<Rightarrow> 's"
    and store :: "u64 \<Rightarrow> u64 \<Rightarrow> 's \<Rightarrow> 's" and load :: "'s \<Rightarrow> u64 \<Rightarrow> u64"
    and rd_ok :: "u64 \<Rightarrow> bool" and live :: "'e world \<Rightarrow> bool"
  assumes stores: "live w \<Longrightarrow> \<exists>w'. wr a v w = (Inr (), w')
      \<and> state (w_env w') = store a v (state (w_env w)) \<and> live w'"
    and loads: "live w \<Longrightarrow> rd_ok a \<Longrightarrow> \<exists>w'. rd a w = (Inr (load (state (w_env w)) a), w')
      \<and> state (w_env w') = state (w_env w) \<and> live w'"
    and others: "a \<noteq> b \<Longrightarrow> load (store a v s) b = load s b"
begin

lemma write_all_device:
  assumes "live w"
  shows "\<exists>w'. write_all wr ws w = (Inr (), w')
    \<and> state (w_env w') = fold (\<lambda>(a, v). store a v) ws (state (w_env w)) \<and> live w'"
  using assms
proof (induction ws arbitrary: w)
  case Nil
  then show ?case by simp
next
  case (Cons av ws)
  obtain a v where av: "av = (a, v)" by (cases av)
  from stores [OF Cons.prems, of a v] obtain w1 where one: "wr a v w = (Inr (), w1)"
    "state (w_env w1) = store a v (state (w_env w))" "live w1" by blast
  from Cons.IH [OF one(3)] one(1,2) show ?case by (auto simp: av)
qed

lemma load_others: "a \<notin> fst ` set ws \<Longrightarrow> load (fold (\<lambda>(a, v). store a v) ws s) a = load s a"
proof (induction ws arbitrary: s)
  case (Cons bv ws)
  then have "load (store (fst bv) (snd bv) s) a = load s a" by (intro others) auto
  with Cons.IH [of "store (fst bv) (snd bv) s"] Cons.prems show ?case by (simp add: case_prod_beta)
qed simp

text \<open>Write, then read: the device gives back what it makes of the value, and elsewhere what it had.\<close>

lemma load_after_store:
  assumes "live w" and "rd_ok b"
  shows "\<exists>w1 w2. wr a v w = (Inr (), w1) \<and> rd b w1 = (Inr (load (store a v (state (w_env w))) b), w2)"
  using stores [OF assms(1), of a v] loads [OF _ assms(2)] by fastforce

end

interpretation rra_dev: register_device "rra_write X ep" "get_node ep" "rra_read X ep" regs "latch_store latch"
  "\<lambda>R. R" rd_ok "\<lambda>_. register_fpga X ep regs latch rd_ok" for X ep regs latch rd_ok
  by unfold_locales (simp_all add: rra_write_device rra_read_device, simp add: latch_store_def)

subsection \<open>A concrete endpoint\<close>

text \<open>A concrete endpoint, and a concrete FPGA with plain registers, for the witnesses.\<close>

definition ep7 :: Endpoint where
  "ep7 = \<lparr>m_node = 2, m_rra = conn7, m_rma = conn7\<lparr>m_port := 8\<rparr>, poller = NotificationPoller_new 8,
     buffer = \<lparr>pb_buffer = 0x1000, m_physical_address = 0x7000\<rparr>,
     hicann_ring_buffer = small_ring, trace_ring_buffer = small_ring\<lparr>m_region := 6\<rparr>\<rparr>"

fun fpga_ext :: "(u64 \<Rightarrow> u64) ext" where
  "fpga_ext (rma2_post_immediate_put port handle n v a spec) R m =
     (\<lparr>r_status = RMA2_SUCCESS, r_ret = 0, r_out = 0\<rparr>,
      if port = 7 \<and> handle = 9 then R(a := v) else R, m)"
| "fpga_ext (rma2_post_get_qw_direct port handle d n a spec) R m =
     (\<lparr>r_status = RMA2_SUCCESS, r_ret = 0, r_out = 0\<rparr>, R,
      if port = 7 \<and> handle = 9 \<and> d = 0x7000 then m(0 := R a) else m)"
| "fpga_ext c R m = (\<lparr>r_status = RMA2_SUCCESS, r_ret = 0, r_out = 0\<rparr>, R, m)"

lemma ep7_rra [simp]:
  "get_rra_port ep7 = 7" "get_rra_handle ep7 = 9" "response_address (buffer ep7) = 0x7000" "get_node ep7 = 2"
  by (simp_all add: ep7_def get_rra_port_def get_port_def get_rra_handle_def get_handle_def conn7_def
      response_address_def get_node_def)

lemma fpga_ext_device: "register_fpga fpga_ext ep7 id (\<lambda>a old v. v) rd_ok"
  unfolding register_fpga_def
proof (intro allI conjI impI)
  fix c R m
  show "r_status (fst (fpga_ext c R m)) = RMA2_SUCCESS" by (cases c) simp_all
  show "id (fst (snd (fpga_ext c R m))) = put_effect ep7 (\<lambda>a old v. v) c (id R)" by (cases c) simp_all
  show "snd (snd (fpga_ext c R m)) 0 = get_effect ep7 c (id R) (m 0)" by (cases c) simp_all
qed

subsection \<open>Properties of access\<close>

text \<open>
  C26: a ping posts one read of the FPGA identifier and probes at most twenty times; after the
  \<open>j\<close>-th probe without a notification it sleeps \<open>10 * 2^j\<close> microseconds, so a ping that fails has
  slept 10485750 microseconds, not one millisecond. It answers true exactly when some probe had
  any other status, and then frees the notification once and probes no more.
\<close>

theorem ping_probes_and_sleeps:
  assumes "ping X ep w = (b, w')"
  shows "\<exists>k noti v. b = (k < 20) \<and> slept (asked w w') + 10 = 10 * 2 ^ k \<and> slept (asked w w') \<le> 10485750
    \<and> asked w w' = ping_request ep
        # concat (map (\<lambda>j. [rma2_noti_probe (get_rra_port ep), sleep_us (10 * 2 ^ j)]) [0..<k])
        @ (if b then [rma2_noti_probe (get_rra_port ep), rma2_noti_free (get_rra_port ep) noti] else [])
    \<and> (\<not> b \<or> r_status (answer X (rma2_noti_probe (get_rra_port ep)) v) \<noteq> RMA2_NO_NOTI)"
proof -
  let ?q = "ping_request ep" and ?port = "get_rra_port ep"
  from assms have "ping_loop X ?port 20 10 (after X ?q w) = (b, w')"
    by (simp add: ping_def)
  from ping_loop_log [OF this] obtain k noti v where k: "extends (after X ?q w) w'" "k \<le> 20" "b = (k < 20)"
    "if b then r_status (answer X (rma2_noti_probe ?port) v) \<noteq> RMA2_NO_NOTI
       \<and> noti = r_out (answer X (rma2_noti_probe ?port) v) else v = w'"
    and log: "asked (after X ?q w) v = concat (map (\<lambda>j. [rma2_noti_probe ?port, sleep_us (10 * 2 ^ j)]) [0..<k])"
      "asked (after X ?q w) w' = asked (after X ?q w) v
         @ (if b then [rma2_noti_probe ?port, rma2_noti_free ?port noti] else [])"
    by blast
  from asked_trans [OF extends_after k(1)] log
  have all: "asked w w' = ?q # concat (map (\<lambda>j. [rma2_noti_probe ?port, sleep_us (10 * 2 ^ j)]) [0..<k])
      @ (if b then [rma2_noti_probe ?port, rma2_noti_free ?port noti] else [])" by simp
  have sl: "slept (asked w w') + 10 = 10 * 2 ^ k"
    using slept_doubling [of ?port 10 k] by (simp add: all ping_request_def)
  have "(2::nat) ^ k \<le> 2 ^ 20"
    using k(2) by (rule power_increasing) simp
  with sl have "slept (asked w w') \<le> 10485750" by simp
  with all sl k(3,4) show ?thesis by (intro exI [of _ k] exI [of _ noti] exI [of _ v]) auto
qed

theorem ping_probes_and_sleeps_witness:
  "slept (asked world0 (snd (ping (always RMA2_NO_NOTI 0) ep7 world0))) = 10485750"
proof -
  obtain b w' where p: "ping (always RMA2_NO_NOTI 0) ep7 world0 = (b, w')"
    by (cases "ping (always RMA2_NO_NOTI 0) ep7 world0")
  with ping_always [of RMA2_NO_NOTI 0 ep7 world0] have "\<not> b" by simp
  from ping_probes_and_sleeps [OF p] obtain k where k: "b = (k < 20)"
    "slept (asked world0 w') + 10 = 10 * 2 ^ k" "slept (asked world0 w') \<le> 10485750" by blast
  with \<open>\<not> b\<close> have "(2::nat) ^ 20 \<le> 2 ^ k"
    by (intro power_increasing) simp_all
  with k p show ?thesis by simp
qed

text \<open>
  An error status counts as an answer: with a librma2 that fails every call, even the posted
  read, the ping still reports that the FPGA has responded. It reports a failure exactly when
  every probe says that there is no notification.
\<close>

theorem ping_accepts_errors:
  "fst (ping (always st x) ep w) = (st \<noteq> RMA2_NO_NOTI)"
  by (rule ping_always)

text \<open>
  A register write posts the put, waits for the completer notification and frees it, each only
  if what came before succeeded; the first status that is not success throws \<^verbatim>\<open>FailedToWrite\<close>
  with the node and the address.
\<close>

theorem rra_write_result:
  "let port = get_rra_port ep;
       put = rma2_post_immediate_put port (get_rra_handle ep) 8 v a RMA2_COMPLETER_NOTIFICATION;
       noti = answer X (rma2_noti_get_block port) (after X put w);
       posted = (r_status (answer X put w) = RMA2_SUCCESS);
       received = (posted \<and> r_status noti = RMA2_SUCCESS);
       freed = (received \<and> r_status (answer X (rma2_noti_free port (r_out noti))
         (after X (rma2_noti_get_block port) (after X put w))) = RMA2_SUCCESS)
   in \<exists>w'. rra_write X ep a v w =
       (if freed then Inr () else Inl (Throw (FailedToWrite (get_node ep) a)), w')
     \<and> asked w w' = put # (if posted then [rma2_noti_get_block port] else [])
         @ (if received then [rma2_noti_free port (r_out noti)] else [])"
  by (auto simp: rra_write_def complete_def throw_on_error_def asked_def Let_def)

text \<open>
  C25: for every register file the templates accept for reading and for writing, on an FPGA whose
  registers answer and that lets this one be read: the typed write of an object the register keeps,
  followed by the typed read, gives the same object back, and every other readable register reads as
  before. (Files that are only readable or only writable are rejected by the templates.)
\<close>

theorem rra_read_returns_written:
  assumes "register_fpga X ep regs latch rd_ok" and "register_file T"
    and "rf_read_ok T" and "rf_write_ok T" and "rd_ok (rf_address T)"
    and "\<And>old. latch (rf_address T) old (raw_of T rf) = raw_of T rf"
    and "a \<noteq> rf_address T" and "rd_ok a"
  shows "\<exists>w' w''. rra_write_rf X T ep rf w = (Inr (), w')
    \<and> rra_read_rf X T ep w' = (Inr rf, w'')
    \<and> fst (rra_read X ep a w') = fst (rra_read X ep a w)"
proof -
  from rra_write_device [OF assms(1), of "rf_address T" "raw_of T rf" w]
  obtain w' where w': "rra_write_rf X T ep rf w = (Inr (), w')"
    "regs (w_env w') = (regs (w_env w))(rf_address T := raw_of T rf)"
    by (auto simp: rra_write_rf_def latch_store_def assms(4,6))
  from rra_read_device [OF assms(1,5), of w'] w'(2)
  obtain w'' where "rra_read X ep (rf_address T) w' = (Inr (raw_of T rf), w'')"
    by auto
  then have "rra_read_rf X T ep w' = (Inr rf, w'')"
    by (simp add: rra_read_rf_def assms(3) register_file.of_raw_of [OF assms(2)])
  moreover have "fst (rra_read X ep a w') = fst (rra_read X ep a w)"
    using rra_read_device [OF assms(1,8), of w'] rra_read_device [OF assms(1,8), of w] w'(2) assms(7)
    by auto
  ultimately show ?thesis using w'(1) by blast
qed

theorem rra_read_returns_written_witness:
  "\<exists>w' w''. rra_write_rf fpga_ext HostEndpoint_RF ep7 (HostEndpoint_new 1 0 5 4)
        \<lparr>w_env = (\<lambda>_. 0), w_mem = (\<lambda>_. 0), w_log = []\<rparr> = (Inr (), w')
    \<and> rra_read_rf fpga_ext HostEndpoint_RF ep7 w' = (Inr (HostEndpoint_new 1 0 5 4), w'')
    \<and> fst (rra_read fpga_ext ep7 0x8008 w')
      = fst (rra_read fpga_ext ep7 0x8008 \<lparr>w_env = (\<lambda>_. 0), w_mem = (\<lambda>_. 0), w_log = []\<rparr>)"
  by (rule rra_read_returns_written [OF fpga_ext_device [of "\<lambda>a. a \<notin> {0x5020, 0x50a0}"] he_rf.register_file_axioms])
    (simp_all add: HostEndpoint_RF_def rf_ok)

end
