(* ===== verification/Endpoint_Lifecycle.thy ===== *)
theory Endpoint_Lifecycle
  imports Endpoint_Access
begin

text \<open>
  Construction and destruction of an endpoint: the members' destructors meet the contract
  \<open>destructor\<close>, so do any of them in sequence, and construction gives back exactly what the members
  built so far hold when it fails.
\<close>

subsection \<open>The members' destructors meet the contract\<close>

interpretation poller_dtor: destructor del_poller "[]"
  by unfold_locales (auto simp: del_poller_def)

lemma del_buffer_delete:
  "del_buffer X b s = Some (r, s') \<Longrightarrow> PhysicalBuffer_delete X b (snd s) = (r, snd s')"
  by (cases s) (auto simp: del_buffer_def split: prod.splits)

definition buffer_releases :: "PhysicalBuffer \<Rightarrow> ext_call list" where
  "buffer_releases b = [munmap_pmap (pb_buffer b) (pages * page_size_bt)]"

interpretation buffer_dtor: destructor "del_buffer X b" "buffer_releases b" for X b
  by unfold_locales
    (auto dest!: del_buffer_delete simp: PhysicalBuffer_delete_def buffer_releases_def released_after
      split: if_splits)

lemma drain_polls_failure:
  assumes "drain_polls sched i bs rb p = Some r"
  shows "case r of Inl f \<Rightarrow> f = Terminate | Inr (rb', p') \<Rightarrow>
    rb_port rb' = rb_port rb \<and> m_region rb' = m_region rb \<and> m_address rb' = m_address rb"
proof (rule drain_polls.raw_induct [OF _ assms,
      where P = "\<lambda>sched i bs rb p r. case r of Inl f \<Rightarrow> f = Terminate | Inr (rb', p') \<Rightarrow>
        rb_port rb' = rb_port rb \<and> m_region rb' = m_region rb \<and> m_address rb' = m_address rb"])
  fix D :: "(nat \<Rightarrow> batch list) \<Rightarrow> nat \<Rightarrow> batch list \<Rightarrow> RingBuffer \<Rightarrow> NotificationPoller
      \<Rightarrow> (failure + RingBuffer \<times> NotificationPoller) option" and sched i bs rb p r
  assume IH: "\<And>sched i bs rb p r. D sched i bs rb p = Some r \<Longrightarrow>
      case r of Inl f \<Rightarrow> f = Terminate | Inr (rb', p') \<Rightarrow>
        rb_port rb' = rb_port rb \<and> m_region rb' = m_region rb \<and> m_address rb' = m_address rb"
    and eq: "(case poll (bs @ sched i) rb p of
        Inl f \<Rightarrow> Some (Inl f)
      | Inr (again, rb', p', rest) \<Rightarrow>
          if again then D sched (Suc i) rest rb' p' else Some (Inr (rb', p'))) = Some r"
  show "case r of Inl f \<Rightarrow> f = Terminate | Inr (rb', p') \<Rightarrow>
      rb_port rb' = rb_port rb \<and> m_region rb' = m_region rb \<and> m_address rb' = m_address rb"
  proof (cases "poll (bs @ sched i) rb p")
    case (Inl f)
    with eq np.only_terminates show ?thesis by (auto simp: poll_def split: sum.splits)
  next
    case (Inr t)
    then obtain again rb' p' rest where t: "poll (bs @ sched i) rb p = Inr (again, rb', p', rest)"
      by (cases t) auto
    then have same: "rb_port rb' = rb_port rb" "m_region rb' = m_region rb" "m_address rb' = m_address rb"
      by (auto simp: poll_def split: sum.splits)
    from eq t have "if again then D sched (Suc i) rest rb' p' = Some r else r = Inr (rb', p')"
      by auto
    with IH [of sched "Suc i" rest rb' p' r] same show ?thesis
      by (cases again) (auto split: sum.splits)
  qed
qed

definition ring_releases :: "RingBuffer \<Rightarrow> ext_call list" where
  "ring_releases rb = [rma2_unregister (rb_port rb) (m_region rb), free_mem (m_address rb)]"

lemma RingBuffer_delete_contract:
  assumes "RingBuffer_delete X sched rb p w = Some r"
  shows "case r of Inl f \<Rightarrow> f = Terminate
    | Inr (p', w') \<Rightarrow> extends w w' \<and> released w w' = ring_releases rb
        \<and> filter is_acquire (asked w w') = []"
proof -
  from assms obtain d where d: "drain_polls sched 0 [] rb p = Some d"
    by (auto simp: RingBuffer_delete_def split: option.splits)
  show ?thesis
  proof (cases d)
    case (Inl f)
    with assms d drain_polls_failure [OF d] show ?thesis by (auto simp: RingBuffer_delete_def)
  next
    case (Inr t)
    obtain rb' p' where t: "t = (rb', p')" by (cases t)
    from drain_polls_failure [OF d] Inr t
    have same: "rb_port rb' = rb_port rb" "m_region rb' = m_region rb" "m_address rb' = m_address rb"
      by simp_all
    from assms d Inr t have "case r of Inl f \<Rightarrow> False | Inr (p1, w1) \<Rightarrow>
        w_log w1 = w_log w @ [notify_call (rb'\<lparr>m_read_index := m_read_index rb' + m_readable_words rb', m_readable_words := 0\<rparr>),
          rma2_unregister (rb_port rb') (m_region rb'), free_mem (m_address rb')]"
      by (auto simp: RingBuffer_delete_def notify_def Let_def)
    then show ?thesis
      by (auto simp: extends_def released_def asked_def notify_call_def ring_releases_def same
          split: sum.splits)
  qed
qed

lemma del_ring_delete:
  "del_ring X sched rb s = Some (r, s') \<Longrightarrow>
   case r of Inl f \<Rightarrow> RingBuffer_delete X sched rb (fst s) (snd s) = Some (Inl f) \<and> s' = s
   | Inr u \<Rightarrow> RingBuffer_delete X sched rb (fst s) (snd s) = Some (Inr s')"
  by (cases s) (auto simp: del_ring_def split: option.splits sum.splits)

interpretation ring_dtor: destructor "del_ring X sched rb" "ring_releases rb" for X sched rb
proof
  fix s s' r
  assume "del_ring X sched rb s = Some (r, s')"
  from del_ring_delete [OF this] show "extends (snd s) (snd s')"
    by (cases s') (auto split: sum.splits dest: RingBuffer_delete_contract)
next
  fix s s' r
  assume "del_ring X sched rb s = Some (r, s')"
  from del_ring_delete [OF this] show "filter is_acquire (asked (snd s) (snd s')) = []"
    by (cases s') (auto split: sum.splits dest: RingBuffer_delete_contract)
next
  fix s s' u
  assume "del_ring X sched rb s = Some (Inr u, s')"
  from del_ring_delete [OF this] show "released (snd s) (snd s') = ring_releases rb"
    by (cases s') (auto dest: RingBuffer_delete_contract)
next
  fix s s' f
  assume "del_ring X sched rb s = Some (Inl f, s')"
  from del_ring_delete [OF this] show "f = Terminate"
    by (auto dest: RingBuffer_delete_contract)
qed


subsection \<open>The whole object\<close>

text \<open>What each member gives back, the last constructed first.\<close>

definition Endpoint_releases :: "Endpoint \<Rightarrow> ext_call list list" where
  "Endpoint_releases ep =
     [ring_releases (trace_ring_buffer ep), ring_releases (hicann_ring_buffer ep),
      buffer_releases (buffer ep), [], conn_releases (m_rma ep), conn_releases (m_rra ep)]"

lemma destroy_dtors:
  assumes "list_all2 destructor ds css"
  shows "destructor (destroy ds) (concat css)"
  using assms
proof (induction ds css rule: list_all2_induct)
  case Nil
  show ?case unfolding concat.simps by (rule destructor_Nil)
next
  case (Cons d ds cs css)
  from Cons.hyps(1) Cons.IH show ?case unfolding concat.simps by (rule destructor_Cons)
qed

lemma Endpoint_dtors_contract:
  "list_all2 destructor (Endpoint_dtors X ts hs ep) (Endpoint_releases ep)"
  unfolding Endpoint_dtors_def Endpoint_releases_def
  by (simp add: ring_dtor.destructor_axioms buffer_dtor.destructor_axioms
      poller_dtor.destructor_axioms conn_dtor.destructor_axioms)

interpretation endpoint_dtor:
  destructor "destroy (Endpoint_dtors X ts hs ep)" "concat (Endpoint_releases ep)" for X ts hs ep
  by (rule destroy_dtors [OF Endpoint_dtors_contract])

text \<open>The destructors of the members constructed before number \<open>k\<close> from the end.\<close>

lemma dtors_suffix:
  "destructor (destroy (drop k (Endpoint_dtors X ts hs ep))) (concat (drop k (Endpoint_releases ep)))"
  by (rule destroy_dtors) (simp add: Endpoint_dtors_contract list_all2_dropI)

lemma unwind_outcome:
  assumes "destructor (destroy ds) cs" and "unwind (Throw e) ds s = Some (r, s')"
  shows "extends (snd s) (snd s')
    \<and> (r = Inl Terminate \<or> r = Inl (Throw e) \<and> released (snd s) (snd s') = cs)"
proof -
  from assms(2) consider f where "destroy ds s = Some (Inl f, s')" "r = Inl f"
    | "destroy ds s = Some (Inr (), s')" "r = Inl (Throw e)"
    by (auto simp: unwind_def split: option.splits sum.splits)
  then show ?thesis
    by cases (auto dest: destructor.appends [OF assms(1)] destructor.returns [OF assms(1)]
        destructor.no_exception [OF assms(1)])
qed


text \<open>The constructors release nothing, and fail only by throwing their own exceptions.\<close>

lemma quiet_PhysicalBuffer_new: "quiet (PhysicalBuffer_new X)"
  unfolding PhysicalBuffer_new_def throw_if_negative_def by (intro avoids_intros) simp_all

lemma quiet_RingBuffer_new: "quiet (RingBuffer_new X port handle n contents)"
  unfolding RingBuffer_new_def Let_def by (intro avoids_intros) simp_all

text \<open>
  How far construction gets: \<open>k\<close> members from the end are missing (the poller cannot fail), and
  \<open>ep\<close> holds those that are there.
\<close>

definition built ::
  "'e ext \<Rightarrow> (u64 \<Rightarrow> u64) \<Rightarrow> (u64 \<Rightarrow> u64) \<Rightarrow> u16 \<Rightarrow> 'e world \<Rightarrow> Endpoint \<Rightarrow> nat \<Rightarrow> 'e world \<Rightarrow> bool" where
  "built X tc hc n w ep k v \<longleftrightarrow>
     (case Connection_new X n True w of
        (Inl _, w1) \<Rightarrow> k = 6 \<and> v = w1
      | (Inr rra, w1) \<Rightarrow> m_rra ep = rra \<and>
     (case Connection_new X n False w1 of
        (Inl _, w2) \<Rightarrow> k = 5 \<and> v = w2
      | (Inr rma, w2) \<Rightarrow> m_rma ep = rma \<and>
     (case PhysicalBuffer_new X w2 of
        (Inl _, w3) \<Rightarrow> k = 3 \<and> v = w3
      | (Inr b, w3) \<Rightarrow> buffer ep = b \<and>
     (case RingBuffer_new X (get_port rma) (get_handle rma) 1 hc w3 of
        (Inl _, w4) \<Rightarrow> k = 2 \<and> v = w4
      | (Inr hicann, w4) \<Rightarrow> hicann_ring_buffer ep = hicann \<and>
     (case RingBuffer_new X (get_port rma) (get_handle rma) 2048 tc w4 of
        (Inl _, w5) \<Rightarrow> k = 1 \<and> v = w5
      | (Inr trace, w5) \<Rightarrow> trace_ring_buffer ep = trace \<and> k = 0 \<and> v = w5)))))"

text \<open>The exceptions of the members: runtime errors, other than the one of the constructor's body.\<close>

definition own_exn :: "exn \<Rightarrow> bool" where
  "own_exn e \<longleftrightarrow> Throw e \<noteq> no_response \<and> catches Std_runtime_error e"

definition throws_own :: "('e world, failure, 'a) comp \<Rightarrow> bool" where
  "throws_own c \<longleftrightarrow> (\<forall>w f w'. c w = (Inl f, w') \<longrightarrow> (\<exists>e. f = Throw e \<and> own_exn e))"

lemma Connection_new_throws: "throws_own (Connection_new X n b)"
  by (auto simp: throws_own_def own_exn_def catches_runtime_error Connection_new_def throw_on_error_def no_response_def split: if_splits)

lemma PhysicalBuffer_new_throws: "throws_own (PhysicalBuffer_new X)"
  by (auto simp: throws_own_def own_exn_def catches_runtime_error PhysicalBuffer_new_def throw_if_negative_def no_response_def
      split: if_splits)

lemma RingBuffer_new_throws: "throws_own (RingBuffer_new X p h n c)"
  by (auto simp: throws_own_def own_exn_def catches_runtime_error RingBuffer_new_def throw_on_error_def no_response_def Let_def
      split: if_splits)

text \<open>One member: built or unwound, and nothing is released by the attempt.\<close>

lemma member_cases:
  assumes "member c ds k (p, w) = Some (r, s')" and "quiet c"
    and "throws_own c"
  obtains e w1 where "c w = (Inl (Throw e), w1)" "unwind (Throw e) ds (p, w1) = Some (r, s')"
      "own_exn e" "extends w w1" "released w w1 = []"
  | x w1 where "c w = (Inr x, w1)" "k x (p, w1) = Some (r, s')" "extends w w1" "released w w1 = []"
proof (cases "c w")
  case (Pair q w1)
  from quietD [OF assms(2) Pair] have "extends w w1" "released w w1 = []" by simp_all
  with Pair assms(1,3) that show ?thesis by (cases q) (auto simp: member_def throws_own_def)
qed

lemma suffix_unwind:
  assumes "unwind (Throw e) (drop k (Endpoint_dtors X ts hs ep)) (p, v) = Some (r, s')"
    and "extends w v" and "released w v = []"
  shows "extends w (snd s') \<and> (r = Inl Terminate
    \<or> r = Inl (Throw e) \<and> released w (snd s') = concat (drop k (Endpoint_releases ep)))"
  using unwind_outcome [OF dtors_suffix assms(1)] released_trans [OF assms(2), of "snd s'"] assms(2,3)
  by (auto intro: extends_trans)


text \<open>The outcomes of construction once \<open>k\<close> members from the end are missing in world \<open>v\<close>.\<close>

definition outcome_from ::
  "'e ext \<Rightarrow> u16 \<Rightarrow> 'e world \<Rightarrow> Endpoint \<Rightarrow> nat \<Rightarrow> 'e world \<Rightarrow> failure + Endpoint \<Rightarrow> 'e world \<Rightarrow> bool" where
  "outcome_from X n w ep k v r w' \<longleftrightarrow> m_node ep = n \<and> extends w w'
    \<and> (case r of
         Inr ep' \<Rightarrow> ep' = ep \<and> k = 0 \<and> fst (ping X ep v) \<and> released w w' = []
       | Inl f \<Rightarrow> (\<exists>e. f = Throw e \<and> catches Std_runtime_error e) \<and> (f = no_response) = (k = 0)
           \<and> (k > 0 \<or> \<not> fst (ping X ep v))
           \<and> released w w' = concat (drop k (Endpoint_releases ep)))"

lemma missing_member:
  assumes "unwind (Throw e) (drop k (Endpoint_dtors X ts hs ep)) (p, v) = Some (r, s')"
    and "extends w v" and "released w v = []" and "own_exn e" and "0 < k" and "m_node ep = n"
  shows "r = Inl Terminate \<or> outcome_from X n w ep k v r (snd s')"
  using suffix_unwind [OF assms(1-3)] assms(4-6) by (auto simp: outcome_from_def own_exn_def)

lemma body_outcome:
  assumes "Endpoint_body X ts hs ep (p, v) = Some (r, s')"
    and "extends w v" and "released w v = []" and "m_node ep = n"
  shows "r = Inl Terminate \<or> outcome_from X n w ep 0 v r (snd s')"
proof -
  obtain pong v' where ping: "ping X ep v = (pong, v')" by (cases "ping X ep v")
  from ping_silent [OF this] released_trans [OF assms(2), of v'] assms(2,3)
  have v': "extends w v'" "released w v' = []" by (auto intro: extends_trans dest: exchanged_nil)
  show ?thesis
  proof (cases pong)
    case True
    with assms(1,4) ping v' show ?thesis by (auto simp: Endpoint_body_def outcome_from_def)
  next
    case False
    with assms(1) ping
    have "unwind (Throw (runtime_error (''Connection Failed: No FPGA response!'' @ [CHR 0x0A])))
        (drop 0 (Endpoint_dtors X ts hs ep)) (p, v') = Some (r, s')"
      by (simp add: Endpoint_body_def no_response_def)
    from suffix_unwind [OF this v'] ping False assms(4) show ?thesis
      by (auto simp: outcome_from_def no_response_def catches_runtime_error)
  qed
qed

lemma released_nil_trans:
  "extends u v \<Longrightarrow> released u v = [] \<Longrightarrow> extends v w \<Longrightarrow> released v w = [] \<Longrightarrow>
   extends u w \<and> released u w = []"
  using released_trans [of u v w] by (auto intro: extends_trans)

text \<open>
  One member of the initialiser list: either it fails, and the members before it are given back,
  or construction goes on with one more member.
\<close>

definition new_outcome ::
  "'e ext \<Rightarrow> (u64 \<Rightarrow> u64) \<Rightarrow> (u64 \<Rightarrow> u64) \<Rightarrow> u16 \<Rightarrow> 'e world \<Rightarrow> failure + Endpoint \<Rightarrow> 'e world \<Rightarrow> bool" where
  "new_outcome X tc hc n w r w' \<longleftrightarrow> r = Inl Terminate
    \<or> (\<exists>ep k v. built X tc hc n w ep k v \<and> outcome_from X n w ep k v r w')"

lemma member_stage:
  assumes "member c ds k (p, w1) = Some (r, s')" and "quiet c" and "throws_own c"
    and w1: "extends w w1" "released w w1 = []"
    and failed: "\<And>e v. c w1 = (Inl (Throw e), v) \<Longrightarrow>
      m_node ep = n \<and> 0 < j \<and> ds = drop j (Endpoint_dtors X ts hs ep) \<and> built X tc hc n w ep j v"
    and goes_on: "\<And>x v. c w1 = (Inr x, v) \<Longrightarrow> extends w v \<Longrightarrow> released w v = [] \<Longrightarrow>
      k x (p, v) = Some (r, s') \<Longrightarrow> new_outcome X tc hc n w r (snd s')"
  shows "new_outcome X tc hc n w r (snd s')"
proof (rule member_cases [OF assms(1-3)])
  fix e v
  assume c: "c w1 = (Inl (Throw e), v)" "unwind (Throw e) ds (p, v) = Some (r, s')"
    "own_exn e" "extends w1 v" "released w1 v = []"
  note v = released_nil_trans [OF w1 c(4,5)]
  from failed [OF c(1)] have f: "m_node ep = n" "0 < j" "built X tc hc n w ep j v"
    and "unwind (Throw e) (drop j (Endpoint_dtors X ts hs ep)) (p, v) = Some (r, s')" using c(2) by auto
  from missing_member [OF this(4) v [THEN conjunct1] v [THEN conjunct2] c(3) f(2,1)] f(3)
  show ?thesis by (auto simp: new_outcome_def)
next
  fix x v
  assume "c w1 = (Inr x, v)" "k x (p, v) = Some (r, s')" "extends w1 v" "released w1 v = []"
  with goes_on [of x v] released_nil_trans [OF w1, of v] show ?thesis by simp
qed

text \<open>The object with the members built so far; those that are missing do not matter.\<close>

abbreviation building ::
  "u16 \<Rightarrow> Connection \<Rightarrow> Connection \<Rightarrow> PhysicalBuffer \<Rightarrow> RingBuffer \<Rightarrow> RingBuffer \<Rightarrow> NotificationPoller \<Rightarrow> Endpoint" where
  "building n rra rma b hicann trace p \<equiv> \<lparr>m_node = n, m_rra = rra, m_rma = rma, poller = p, buffer = b,
     hicann_ring_buffer = hicann, trace_ring_buffer = trace\<rparr>"

lemmas new_throws = quiet_Connection_new Connection_new_throws quiet_PhysicalBuffer_new
  PhysicalBuffer_new_throws quiet_RingBuffer_new RingBuffer_new_throws

text \<open>The last two members and the body of the constructor.\<close>

lemma rings_outcome:
  assumes "Connection_new X n True w = (Inr rra, w1)" and "Connection_new X n False w1 = (Inr rma, w2)"
    and "PhysicalBuffer_new X w2 = (Inr b, w3)" and w3: "extends w w3" "released w w3 = []"
    and ds: "ds = [del_poller, del_connection X rma, del_connection X rra]"
    and rings: "member (RingBuffer_new X (get_port rma) (get_handle rma) 1 hc) (del_buffer X b # ds) (\<lambda>hicann.
      member (RingBuffer_new X (get_port rma) (get_handle rma) 2048 tc)
        (del_ring X hs hicann # del_buffer X b # ds) (\<lambda>trace.
      Endpoint_body X ts hs (building n rra rma b hicann trace p))) (q, w3) = Some (r, s')"
  shows "new_outcome X tc hc n w r (snd s')"
proof -
  note built = assms(1-3) and d = Endpoint_dtors_def built_def ds
  note stage = member_stage [where n = n and X = X and tc = tc and hc = hc and ts = ts and hs = hs]
  show ?thesis
  proof (rule stage [OF rings new_throws(5,6) w3, where j = 2 and ep = "building n rra rma b undefined undefined p"],
      goal_cases)
    case 1
    with built show ?case by (simp add: d)
  next
    case c4: (2 hicann w4)
    show ?case
    proof (rule stage [OF c4(4) new_throws(5,6) c4(2,3), where j = 1
          and ep = "building n rra rma b hicann undefined p"], goal_cases)
      case 1
      with built c4 show ?case by (simp add: d)
    next
      case c5: (2 trace w5)
      from built c4 c5 have "built X tc hc n w (building n rra rma b hicann trace p) 0 w5" by (simp add: d)
      with body_outcome [OF c5(4) c5(2,3), of n] show ?case by (auto simp: new_outcome_def)
    qed
  qed
qed

lemma Endpoint_new_outcome:
  assumes "Endpoint_new X ts hs tc hc n w = Some (r, (p, w'))"
  shows "new_outcome X tc hc n w r w'"
proof -
  let ?ep = "\<lambda>rra rma. building n rra rma undefined undefined undefined undefined"
  note new = assms [unfolded Endpoint_new_def Let_def]
  note stage = member_stage [where n = n and X = X and tc = tc and hc = hc and ts = ts and hs = hs]
  note d = Endpoint_dtors_def built_def
  have "new_outcome X tc hc n w r (snd (p, w'))"
  proof (rule stage [OF new new_throws(1,2) extends_refl released_refl, where j = 6 and ep = "?ep undefined undefined"],
      goal_cases)
    case 1
    then show ?case by (simp add: d)
  next
    case c1: (2 rra w1)
    show ?case
    proof (rule stage [OF c1(4) new_throws(1,2) c1(2,3), where j = 5 and ep = "?ep rra undefined"], goal_cases)
      case 1
      with c1 show ?case by (simp add: d)
    next
      case c2: (2 rma w2)
      show ?case
      proof (rule stage [OF c2(4) [unfolded prod.case] new_throws(3,4) c2(2,3), where j = 3 and ep = "?ep rra rma"],
          goal_cases)
        case 1
        with c1 c2 show ?case by (simp add: d)
      next
        case c3: (2 b w3)
        show ?case by (rule rings_outcome [OF c1(1) c2(1) c3(1-3) refl c3(4)])
      qed
    qed
  qed
  then show ?thesis by simp
qed

text \<open>A construction that succeeds ends with the ping.\<close>

lemma case_result:
  "(case c of (Inl e, w) \<Rightarrow> A e w | (Inr x, w) \<Rightarrow> B x w)
   \<longleftrightarrow> (\<exists>e w. c = (Inl e, w) \<and> A e w) \<or> (\<exists>x w. c = (Inr x, w) \<and> B x w)"
  by (auto split: prod.splits sum.splits)

lemma Endpoint_new_pinged:
  assumes "Endpoint_new X ts hs tc hc n w = Some (Inr ep, (p, w'))"
  shows "\<exists>v. built X tc hc n w ep 0 v \<and> ping X ep v = (True, w') \<and> get_node ep = n"
  using assms
  by (auto simp: Endpoint_new_def member_def unwind_def Endpoint_body_def built_def Let_def get_node_def
      split: prod.splits sum.splits option.splits failure.splits bool.splits if_splits)

lemma idle_drain: "drain_polls (\<lambda>i. []) i [] rb (p\<lparr>m_packets := 0\<rparr>) = Some (Inr (rb, p\<lparr>m_packets := 0\<rparr>))"
  by (subst drain_polls.simps) (simp add: poll_def consume_packets_def)

lemma idle_new [simp]: "drain_polls (\<lambda>i. []) i [] rb (NotificationPoller_new x) = Some (Inr (rb, NotificationPoller_new x))"
  using idle_drain [of i rb "NotificationPoller_new x"] by (simp add: NotificationPoller_new_def)

lemmas idle_simps = Endpoint_new_def member_def Connection_new_def PhysicalBuffer_new_def RingBuffer_new_def
  throw_if_negative_def throw_on_error_def conn_type_def rra_connection_def MAP_FAILED_def pages_def
  page_size_bt_def rb_page_size_bt_def get_port_def get_handle_def after_def answer_def ask_def

lemma idle_after:
  "w_env w = 0 \<Longrightarrow> w_env (after queue_ext c w) = 0"
  by (cases c) (simp_all add: after_def ask_def)

lemma idle_probe: "w_env w = 0 \<Longrightarrow> r_status (answer queue_ext (rma2_noti_probe port) w) = RMA2_NO_NOTI"
  by (simp add: answer_def ask_def)

lemma idle_ping:
  assumes "w_env w = 0"
  shows "\<exists>w'. ping queue_ext ep w = (False, w') \<and> w_env w' = 0"
proof -
  have "\<exists>w'. ping_loop queue_ext port i t v = (False, w') \<and> w_env w' = 0" if "w_env v = 0" for port i t v
    using that by (induction i arbitrary: t v) (simp_all add: idle_probe idle_after Let_def)
  then show ?thesis using assms by (simp add: ping_def idle_after)
qed

lemma idle_connection:
  assumes "w_env w = 0" and "m_handle c \<noteq> 0"
  shows "\<exists>w'. del_connection queue_ext c (p, w) = Some (Inr (), (p, w')) \<and> w_env w' = 0 \<or> m_port c = 0"
  using assms by (simp add: del_connection_def Connection_delete_def drain_notifications.simps
      idle_probe idle_after)

lemma idle_ring:
  assumes "w_env w = 0"
  shows "\<exists>w'. del_ring queue_ext (\<lambda>i. []) rb (NotificationPoller_new x, w)
    = Some (Inr (), (NotificationPoller_new x, w')) \<and> w_env w' = 0"
  using assms by (simp add: del_ring_def RingBuffer_delete_def notify_def Let_def idle_after)

lemma idle_buffer:
  assumes "w_env w = 0"
  shows "\<exists>w'. del_buffer queue_ext b (p, w) = Some (Inr (), (p, w')) \<and> w_env w' = 0"
  using assms by (simp add: del_buffer_def PhysicalBuffer_delete_def idle_after)
    (simp add: answer_def ask_def)

lemma idle_dtors:
  assumes "w_env w = 0" and "m_port (m_rra ep) \<noteq> 0" and "m_handle (m_rra ep) \<noteq> 0"
    and "m_port (m_rma ep) \<noteq> 0" and "m_handle (m_rma ep) \<noteq> 0"
  shows "\<exists>s'. destroy (Endpoint_dtors queue_ext (\<lambda>i. []) (\<lambda>i. []) ep) (NotificationPoller_new x, w)
    = Some (Inr (), s')"
proof -
  from idle_ring [OF assms(1), of "trace_ring_buffer ep" x] obtain w1 where 1: "w_env w1 = 0"
    "del_ring queue_ext (\<lambda>i. []) (trace_ring_buffer ep) (NotificationPoller_new x, w)
      = Some (Inr (), (NotificationPoller_new x, w1))" by blast
  from idle_ring [OF 1(1), of "hicann_ring_buffer ep" x] obtain w2 where 2: "w_env w2 = 0"
    "del_ring queue_ext (\<lambda>i. []) (hicann_ring_buffer ep) (NotificationPoller_new x, w1)
      = Some (Inr (), (NotificationPoller_new x, w2))" by blast
  from idle_buffer [OF 2(1), of "buffer ep" "NotificationPoller_new x"] obtain w3 where 3: "w_env w3 = 0"
    "del_buffer queue_ext (buffer ep) (NotificationPoller_new x, w2)
      = Some (Inr (), (NotificationPoller_new x, w3))" by blast
  let ?p = "NotificationPoller_delete (NotificationPoller_new x)"
  from idle_connection [OF 3(1) assms(5), of ?p] assms(4) obtain w4 where 4: "w_env w4 = 0"
    "del_connection queue_ext (m_rma ep) (?p, w3) = Some (Inr (), (?p, w4))" by blast
  from idle_connection [OF 4(1) assms(3), of ?p] assms(2) obtain w5 where
    "del_connection queue_ext (m_rra ep) (?p, w4) = Some (Inr (), (?p, w5))" by blast
  with 1 2 3 4 show ?thesis by (simp add: Endpoint_dtors_def del_poller_def)
qed

lemma idle_body:
  assumes "w_env w = 0" and "m_port (m_rra ep) \<noteq> 0" and "m_handle (m_rra ep) \<noteq> 0"
    and "m_port (m_rma ep) \<noteq> 0" and "m_handle (m_rma ep) \<noteq> 0"
  shows "\<exists>p w'. Endpoint_body queue_ext (\<lambda>i. []) (\<lambda>i. []) ep (NotificationPoller_new x, w)
    = Some (Inl no_response, (p, w'))"
proof -
  from idle_ping [OF assms(1)] obtain v where "ping queue_ext ep w = (False, v)" "w_env v = 0" by blast
  with idle_dtors [OF _ assms(2-5), of v x] show ?thesis
    by (auto simp: Endpoint_body_def unwind_def no_response_def)
qed

lemma idle_construction:
  "\<exists>p w'. Endpoint_new queue_ext (\<lambda>i. []) (\<lambda>i. []) (\<lambda>_. 0) (\<lambda>_. 0) 2 \<lparr>w_env = 0, w_mem = (\<lambda>_. 0), w_log = []\<rparr>
      = Some (Inl no_response, (p, w'))"
  by (simp add: idle_simps) (unfold Let_def, rule idle_body, simp_all)

text \<open>An endpoint whose ping finds its answer: one notification is pending.\<close>

definition ep_session :: Endpoint where
  "ep_session = \<lparr>m_node = 2,
     m_rra = \<lparr>m_port = 7, m_handle = 7, m_vpid = 7, m_type = conn_type True\<rparr>,
     m_rma = \<lparr>m_port = 7, m_handle = 7, m_vpid = 7, m_type = conn_type False\<rparr>,
     poller = NotificationPoller_new 7, buffer = \<lparr>pb_buffer = 7, m_physical_address = 7\<rparr>,
     hicann_ring_buffer = \<lparr>size_bt = 0x1000, size_qw = 0x200, rb_port = 7, rb_handle = 7, m_address = 7,
       m_buffer = (\<lambda>_. 0), m_region = 7, m_read_index = 0, m_readable_words = 0, m_read_words = 0\<rparr>,
     trace_ring_buffer = \<lparr>size_bt = 0x800000, size_qw = 0x100000, rb_port = 7, rb_handle = 7, m_address = 7,
       m_buffer = (\<lambda>_. 0), m_region = 7, m_read_index = 0, m_readable_words = 0, m_read_words = 0\<rparr>\<rparr>"

definition one_pending :: "nat world" where
  "one_pending = \<lparr>w_env = 1, w_mem = (\<lambda>_. 0), w_log = []\<rparr>"

lemma body_answered:
  assumes "w_env w = Suc 0" and "get_rra_port ep = 7"
  shows "\<exists>w'. Endpoint_body queue_ext ts hs ep (p, w) = Some (Inr ep, (p, w')) \<and> w_env w' = 0"
proof -
  let ?w1 = "after queue_ext (ping_request ep) w"
  have "w_env ?w1 = Suc 0"
    using assms by (simp add: ping_request_def after_def ask_def)
  moreover have "\<exists>w'. ping_loop queue_ext 7 (Suc i) t v = (True, w') \<and> w_env w' = 0"
    if "w_env v = Suc 0" for i t v
    using that by (simp add: Let_def answer_def after_def ask_def)
  moreover have "ping queue_ext ep w = ping_loop queue_ext 7 (Suc 19) 10 ?w1"
    using assms(2) by (simp add: ping_def)
  ultimately obtain w' where "ping queue_ext ep w = (True, w')" "w_env w' = 0" by metis
  then show ?thesis by (simp add: Endpoint_body_def)
qed

lemma session_starts:
  "\<exists>w1. Endpoint_new queue_ext (\<lambda>i. []) (\<lambda>i. []) (\<lambda>_. 0) (\<lambda>_. 0) 2 one_pending
     = Some (Inr ep_session, (NotificationPoller_new 7, w1)) \<and> w_env w1 = 0"
  by (simp add: idle_simps one_pending_def ep_session_def)
    (unfold Let_def, rule body_answered, simp_all add: get_rra_port_def get_port_def)

subsection \<open>Properties of the lifecycle\<close>


text \<open>
  C16: a construction that fails gives back exactly what the members constructed so far hold, in
  the reverse order of their construction, and throws; only when the FPGA does not answer the
  ping does it report that, with all six members built and all of them given back. A construction
  that succeeds gives nothing back and ends with a ping that was answered. The only other outcome
  is the end of the process inside a destructor.
\<close>

theorem Endpoint_new_unwinds:
  assumes "Endpoint_new X ts hs tc hc n w = Some (r, (p, w'))"
  shows "r = Inl Terminate
    \<or> (\<exists>ep k v. built X tc hc n w ep k v \<and> outcome_from X n w ep k v r w')"
  using Endpoint_new_outcome [OF assms] by (simp add: new_outcome_def)

theorem Endpoint_new_unwinds_witness:
  "\<exists>p w'. Endpoint_new queue_ext (\<lambda>i. []) (\<lambda>i. []) (\<lambda>_. 0) (\<lambda>_. 0) 2 \<lparr>w_env = 0, w_mem = (\<lambda>_. 0), w_log = []\<rparr>
      = Some (Inl no_response, (p, w'))
    \<and> released \<lparr>w_env = 0, w_mem = (\<lambda>_. 0), w_log = []\<rparr> w' =
      [rma2_unregister 7 7, free_mem 7, rma2_unregister 7 7, free_mem 7, munmap_pmap 7 0x400000,
       rma2_disconnect 7 7, rma2_close 7, rma2_disconnect 7 7, rma2_close 7]"
proof -
  let ?w = "\<lparr>w_env = 0, w_mem = (\<lambda>_. 0), w_log = []\<rparr> :: nat world"
  obtain p w' where d: "Endpoint_new queue_ext (\<lambda>i. []) (\<lambda>i. []) (\<lambda>_. 0) (\<lambda>_. 0) 2 ?w
      = Some (Inl no_response, (p, w'))"
    using idle_construction by blast
  have "no_response \<noteq> Terminate" by (simp add: no_response_def)
  with Endpoint_new_unwinds [OF d] obtain ep k v where
    b: "built queue_ext (\<lambda>_. 0) (\<lambda>_. 0) 2 ?w ep k v"
    and out: "outcome_from queue_ext 2 ?w ep k v (Inl no_response) w'" by auto
  have "k = 0" using out by (simp add: outcome_from_def)
  with b have "Endpoint_releases ep = [[rma2_unregister 7 7, free_mem 7], [rma2_unregister 7 7, free_mem 7],
      [munmap_pmap 7 0x400000], [], [rma2_disconnect 7 7, rma2_close 7], [rma2_disconnect 7 7, rma2_close 7]]"
    by (simp add: built_def Endpoint_releases_def idle_simps ring_releases_def buffer_releases_def
        conn_releases_def)
  with out d \<open>k = 0\<close> show ?thesis by (auto simp: outcome_from_def)
qed

text \<open>
  A destruction that returns gives back, in this order and each once, what the trace ring
  buffer, the HICANN ring buffer, the physical buffer, the RMA connection and the RRA connection
  hold; the only other way it ends is the end of the process.
\<close>

theorem Endpoint_delete_releases:
  assumes "Endpoint_delete X ts hs ep w = Some (r, (p, w'))"
    and "m_port (m_rra ep) \<noteq> 0" and "m_handle (m_rra ep) \<noteq> 0"
    and "m_port (m_rma ep) \<noteq> 0" and "m_handle (m_rma ep) \<noteq> 0"
  shows "r = Inl Terminate \<or> r = Inr () \<and> released w w' =
    [rma2_unregister (rb_port (trace_ring_buffer ep)) (m_region (trace_ring_buffer ep)),
     free_mem (m_address (trace_ring_buffer ep)),
     rma2_unregister (rb_port (hicann_ring_buffer ep)) (m_region (hicann_ring_buffer ep)),
     free_mem (m_address (hicann_ring_buffer ep)),
     munmap_pmap (pb_buffer (buffer ep)) 0x400000,
     rma2_disconnect (get_rma_port ep) (get_rma_handle ep), rma2_close (get_rma_port ep),
     rma2_disconnect (get_rra_port ep) (get_rra_handle ep), rma2_close (get_rra_port ep)]"
proof -
  note d = assms(1) [unfolded Endpoint_delete_def]
  from endpoint_dtor.outcome [OF d] endpoint_dtor.returns [of X ts hs ep _ "()" "(p, w')"] d assms(2-5)
  show ?thesis
    by (auto simp: Endpoint_releases_def ring_releases_def buffer_releases_def conn_releases_def
        get_rma_port_def get_rma_handle_def get_rra_port_def get_rra_handle_def get_port_def
        get_handle_def pages_def page_size_bt_def)
qed

theorem Endpoint_delete_releases_witness:
  "\<exists>p w'. Endpoint_delete queue_ext (\<lambda>i. []) (\<lambda>i. []) ep7 \<lparr>w_env = 0, w_mem = (\<lambda>_. 0), w_log = []\<rparr>
      = Some (Inr (), (p, w'))
    \<and> released \<lparr>w_env = 0, w_mem = (\<lambda>_. 0), w_log = []\<rparr> w' =
      [rma2_unregister 1 6, free_mem 0x1000, rma2_unregister 1 5, free_mem 0x1000, munmap_pmap 0x1000 0x400000,
       rma2_disconnect 8 9, rma2_close 8, rma2_disconnect 7 9, rma2_close 7]"
proof -
  let ?w = "\<lparr>w_env = 0, w_mem = (\<lambda>_. 0), w_log = []\<rparr> :: nat world"
  obtain p w' where d: "Endpoint_delete queue_ext (\<lambda>i. []) (\<lambda>i. []) ep7 ?w = Some (Inr (), (p, w'))"
    using idle_dtors [of ?w ep7 8] unfolding Endpoint_delete_def by (auto simp: ep7_def conn7_def)
  from Endpoint_delete_releases [OF d] d show ?thesis
    by (simp add: ep7_def conn7_def small_ring_def get_rma_port_def get_rma_handle_def get_rra_port_def
        get_rra_handle_def get_port_def get_handle_def)
qed

end
