(* ===== verification/Configure_Fpga.thy ===== *)
theory Configure_Fpga
  imports Endpoint_Lifecycle
begin

text \<open>
  \<^verbatim>\<open>configure_fpga\<close> of \<^verbatim>\<open>src/nhtl-extoll/configure_fpga.cpp\<close>, both overloads: the sequence of
  register writes that brings the FPGA up, on the state of the endpoint and the world. The first
  failing write or read ends it with its exception. \<open>config_writes\<close> is the independent
  description of what has to arrive at the FPGA; the lemmas show that the code posts it.
\<close>

unbundle bit_operations_syntax

subsection \<open>The configuration\<close>

record Ringbuffer =
  start_address :: u64
  capacity :: u32
  threshold :: u32
  reset_counter :: bool
  timeout :: u32
  frequency :: u32

record PartnerHostConfiguration =
  local_node :: u16
  protection_domain_id :: u16
  vpid :: u16
  mode :: u8
  config_put_address :: u64
  hicann :: Ringbuffer
  trace :: Ringbuffer
  hicann_trace_pkt_closure :: u32

subsection \<open>The sequence of writes\<close>

text \<open>The member functions on the state of the endpoint and the world.\<close>

type_synonym 'e connected = "Endpoint \<times> 'e world"

definition put :: "'e ext \<Rightarrow> 'rf RF \<Rightarrow> 'rf \<Rightarrow> ('e connected, failure, unit) comp" where
  "put X T rf = (\<lambda>(ep, w). case rra_write_rf X T ep rf w of (r, w') \<Rightarrow> (r, (ep, w')))"

definition get :: "'e ext \<Rightarrow> 'rf RF \<Rightarrow> ('e connected, failure, 'rf) comp" where
  "get X T = (\<lambda>(ep, w). case rra_read_rf X T ep w of (r, w') \<Rightarrow> (r, (ep, w')))"

definition reset_rings :: "Endpoint \<Rightarrow> Endpoint" where
  "reset_rings ep =
     ep\<lparr>hicann_ring_buffer := reset (hicann_ring_buffer ep),
       trace_ring_buffer := reset (trace_ring_buffer ep)\<rparr>"

definition reset_both :: "('e connected, failure, unit) comp" where
  "reset_both = (\<lambda>(ep, w). (Inr (), (reset_rings ep, w)))"

definition announce_node :: "'e ext \<Rightarrow> ('e connected, failure, unit) comp" where
  "announce_node X =
     andthen (get X Info_RF) (\<lambda>info (ep, w).
     put X Info_RF (Info_set_ndid (get_node ep) info) (ep, w))"

definition configure_fpga_with ::
  "'e ext \<Rightarrow> PartnerHostConfiguration \<Rightarrow> ('e connected, failure, unit) comp" where
  "configure_fpga_with X config =
     andthen (put X HostEndpoint_RF (HostEndpoint_new (ucast (local_node config))
       (ucast (protection_domain_id config)) (ucast (vpid config)) (ucast (mode config)))) (\<lambda>_.
     andthen (put X ConfigResponse_RF (ConfigResponse_new (config_put_address config))) (\<lambda>_.
     andthen (put X HicannBufferStart_RF (HicannBufferStart_new (start_address (hicann config)))) (\<lambda>_.
     andthen (put X HicannBufferSize_RF (HicannBufferSize_new (capacity (hicann config)))) (\<lambda>_.
     andthen (put X HicannBufferFullThreshold_RF (HicannBufferFullThreshold_new (threshold (hicann config)))) (\<lambda>_.
     andthen (put X HicannNotificationBehaviour_RF
       (HicannNotificationBehaviour_new (timeout (hicann config)) (frequency (hicann config)))) (\<lambda>_.
     andthen (if reset_counter (hicann config)
       then put X HicannBufferCounterReset_RF (HicannBufferCounterReset_new True) else ret ()) (\<lambda>_.
     andthen (put X TraceBufferStart_RF (TraceBufferStart_new (start_address (trace config)))) (\<lambda>_.
     andthen (put X TraceBufferSize_RF (TraceBufferSize_new (capacity (trace config)))) (\<lambda>_.
     andthen (put X TraceBufferFullThreshold_RF (TraceBufferFullThreshold_new (threshold (trace config)))) (\<lambda>_.
     andthen (put X TraceNotificationBehaviour_RF
       (TraceNotificationBehaviour_new (timeout (trace config)) (frequency (trace config)))) (\<lambda>_.
     andthen (if reset_counter (trace config)
       then put X TraceBufferCounterReset_RF (TraceBufferCounterReset_new True) else ret ()) (\<lambda>_.
     andthen (put X TraceBufferInit_RF (TraceBufferInit_new True)) (\<lambda>_.
     andthen (put X HicannBufferInit_RF (HicannBufferInit_new True)) (\<lambda>_.
     andthen reset_both (\<lambda>_.
     andthen (put X HicannTracePktClosure_RF (HicannTracePktClosure_new (hicann_trace_pkt_closure config))) (\<lambda>_.
     announce_node X))))))))))))))))"

text \<open>
  The overload with defaults. The initialisers run from left to right, so the node id is asked
  first, then the two network addresses.
\<close>

definition default_frequency :: "RingBuffer \<Rightarrow> u32" where
  "default_frequency rb = ucast (size_qw rb div 62 - 8)"

definition configure_fpga :: "'e ext \<Rightarrow> ('e connected, failure, unit) comp" where
  "configure_fpga X = (\<lambda>(ep, w).
     case andthen (call X (rma2_get_nodeid (get_rma_port ep))) (\<lambda>node.
          andthen (rb_nla X (hicann_ring_buffer ep) 0) (\<lambda>hicann_nla.
          andthen (rb_nla X (trace_ring_buffer ep) 0) (\<lambda>trace_nla.
          ret \<lparr>local_node = ucast (r_out node), protection_domain_id = 0, vpid = get_rma_vpid ep,
               mode = 4, config_put_address = response_address (buffer ep),
               hicann = \<lparr>start_address = hicann_nla, capacity = ucast (size_bt (hicann_ring_buffer ep)),
                 threshold = 0x7c0, reset_counter = False, timeout = 0x100,
                 frequency = default_frequency (hicann_ring_buffer ep)\<rparr>,
               trace = \<lparr>start_address = trace_nla, capacity = ucast (size_bt (trace_ring_buffer ep)),
                 threshold = 0x7c0, reset_counter = False, timeout = 0x100,
                 frequency = default_frequency (trace_ring_buffer ep)\<rparr>,
               hicann_trace_pkt_closure = 512\<rparr>))) w of
       (Inl f, w') \<Rightarrow> (Inl f, (ep, w'))
     | (Inr config, w') \<Rightarrow> configure_fpga_with X config (ep, w'))"

subsection \<open>What has to arrive at the FPGA\<close>

definition ring_writes :: "Ringbuffer \<Rightarrow> u64 \<Rightarrow> u64 \<Rightarrow> u64 \<Rightarrow> u64 \<Rightarrow> u64 \<Rightarrow> (u64 \<times> u64) list" where
  "ring_writes rb start size_reg thres behaviour counter_reset =
     [(start, start_address rb), (size_reg, ucast (capacity rb)), (thres, ucast (threshold rb)),
      (behaviour, ucast (timeout rb) OR push_bit 32 (ucast (frequency rb)))]
     @ (if reset_counter rb then [(counter_reset, 1)] else [])"

definition host_endpoint_word :: "PartnerHostConfiguration \<Rightarrow> u64" where
  "host_endpoint_word config =
     ucast (local_node config) OR push_bit 16 (ucast (protection_domain_id config))
     OR push_bit 32 (take_bit 10 (ucast (vpid config))) OR push_bit 42 (take_bit 6 (ucast (mode config)))"

definition config_writes :: "PartnerHostConfiguration \<Rightarrow> (u64 \<times> u64) list" where
  "config_writes config =
     [(0x5298, host_endpoint_word config), (0x52a0, config_put_address config)]
     @ ring_writes (hicann config) 0x5080 0x5088 0x5090 0x52b0 0x50a0
     @ ring_writes (trace config) 0x5000 0x5008 0x5010 0x52a8 0x5020
     @ [(0x5040, 1), (0x50c0, 1)]"

definition closure_write :: "PartnerHostConfiguration \<Rightarrow> u64 \<times> u64" where
  "closure_write config = (0x52b8, ucast (hicann_trace_pkt_closure config))"

text \<open>The information register as written back: the node id is added to the bits that were there.\<close>

definition info_write :: "u16 \<Rightarrow> u64 \<Rightarrow> u64 \<times> u64" where
  "info_write node old = (0x8008, old OR push_bit 24 (ucast node))"

subsection \<open>The code posts it\<close>

definition after_writes ::
  "'e ext \<Rightarrow> (u64 \<times> u64) list \<Rightarrow> ('e connected, failure, unit) comp \<Rightarrow> ('e connected, failure, unit) comp" where
  "after_writes X ws k = (\<lambda>(ep, w).
     case write_all (rra_write X ep) ws w of
       (Inl f, w') \<Rightarrow> (Inl f, (ep, w'))
     | (Inr _, w') \<Rightarrow> k (ep, w'))"

lemma after_writes_Nil: "after_writes X [] k = k"
  by (rule ext) (simp add: after_writes_def split: prod.splits)

lemma put_chain:
  "rf_write_ok T \<Longrightarrow> andthen (put X T rf) (\<lambda>_. after_writes X ws k) = after_writes X ((rf_address T, raw_of T rf) # ws) k"
  by (rule ext)
    (auto simp: after_writes_def put_def rra_write_rf_def andthen_def split: prod.splits sum.splits)

lemma optional_put_chain:
  "rf_write_ok T \<Longrightarrow> andthen (if b then put X T rf else ret ()) (\<lambda>_. after_writes X ws k)
   = after_writes X ((if b then [(rf_address T, raw_of T rf)] else []) @ ws) k"
  by (simp add: put_chain)

lemma bf_or_take_bit: "bf_or k (mask w) v raw = raw OR push_bit k (take_bit w v)"
  by (simp add: bf_or_def take_bit_eq_mask)

lemma ucast_widen:
  "(ucast (ucast (n::u16) :: u32) :: u64) = ucast n" "(ucast (ucast (m::u8) :: u32) :: u64) = ucast m"
  by (rule bit_eqI; auto simp: bit_simps dest: bit_imp_le_length)+

lemma take_bit_ucast_u16: "take_bit 16 (ucast (n::u16) :: u64) = ucast n"
  by (rule bit_eqI) (auto simp: bit_simps dest: bit_imp_le_length)

lemma host_endpoint_value:
  "HostEndpoint_raw (HostEndpoint_new (ucast (n::u16)) (ucast (d::u16)) (ucast (v::u16)) (ucast (m::u8)))
   = ucast n OR push_bit 16 (ucast d) OR push_bit 32 (take_bit 10 (ucast v)) OR push_bit 42 (take_bit 6 (ucast m))"
  by (simp add: HostEndpoint_new_def lit_mask bf_or_take_bit ucast_widen take_bit_ucast_u16
      or.assoc del: take_bit_numeral_minus_numeral_word)

lemma info_value: "Info_raw (Info_set_ndid n \<lparr>Info_raw = old\<rparr>) = old OR push_bit 24 (ucast n)"
  by (simp add: Info_set_ndid_def lit_mask bf_or_take_bit take_bit_ucast_u16)

lemma configure_posts:
  "configure_fpga_with X config =
   after_writes X (config_writes config)
     (andthen reset_both (\<lambda>_. after_writes X [closure_write config] (announce_node X)))"
proof -
  have nil: "andthen reset_both k = after_writes X [] (andthen reset_both k)" for k
    by (simp add: after_writes_Nil)
  have closure: "andthen (put X HicannTracePktClosure_RF (HicannTracePktClosure_new (hicann_trace_pkt_closure config)))
      (\<lambda>_. announce_node X) = after_writes X [closure_write config] (announce_node X)"
    using put_chain [of HicannTracePktClosure_RF X _ "[]" "announce_node X"]
    by (simp add: after_writes_Nil closure_write_def HicannTracePktClosure_RF_def HicannTracePktClosure_new_def rf_ok)
  show ?thesis
    unfolding configure_fpga_with_def closure
    by (subst nil)
      (simp add: put_chain optional_put_chain config_writes_def ring_writes_def host_endpoint_word_def
        host_endpoint_value rf_defs bf_simps bf_or_def rf_ok del: HostEndpoint_new_def)
qed


lemma rra_read_log:
  assumes "rra_read X ep a w = (r, w')"
  shows "extends w w' \<and> writes (asked w w') = []
    \<and> (case r of Inl f \<Rightarrow> f = Throw (FailedToRead (get_node ep) a) | Inr x \<Rightarrow> x = w_mem w' 0)"
  using assms
  by (auto simp: rra_read_def complete_def throw_on_error_def asked_def extends_def andthen_assoc
      split: if_splits)

lemma announce_node_outcome:
  assumes "announce_node X (ep, w) = (r, (ep', w'))"
  shows "ep' = ep \<and> extends w w' \<and>
    ((\<exists>old v. fst (rra_read X ep 0x8008 w) = Inr old \<and> writes (asked w w') = [info_write (get_node ep) old]
        \<and> (r = Inr () \<or> r = Inl (Throw (FailedToWrite (get_node ep) 0x8008))))
     \<or> writes (asked w w') = [] \<and> r = Inl (Throw (FailedToRead (get_node ep) 0x8008)))"
proof -
  obtain r1 w1 where rd: "rra_read X ep 0x8008 w = (r1, w1)" by (cases "rra_read X ep 0x8008 w")
  note log = rra_read_log [OF rd]
  show ?thesis
  proof (cases r1)
    case (Inl f)
    with assms rd have "r = Inl f" "ep' = ep" "w' = w1"
      by (auto simp: announce_node_def get_def rra_read_rf_def Info_RF_def rf_ok andthen_def)
    with log Inl show ?thesis by simp
  next
    case (Inr old)
    let ?v = "old OR push_bit 24 (ucast (get_node ep))"
    obtain r2 w2 where wr: "rra_write X ep 0x8008 ?v w1 = (r2, w2)" by (cases "rra_write X ep 0x8008 ?v w1")
    with assms rd Inr have r: "r = r2" "ep' = ep" "w' = w2"
      by (auto simp: announce_node_def get_def put_def rra_read_rf_def rra_write_rf_def Info_RF_def rf_ok
          info_value andthen_def)
    from rra.posts [OF wr] log asked_trans [of w w1 w2]
    have "extends w w2" "writes (asked w w2) = [info_write (get_node ep) old]"
      by (auto intro: extends_trans simp: info_write_def)
    moreover have "r2 = Inr () \<or> r2 = Inl (Throw (FailedToWrite (get_node ep) 0x8008))"
      using rra.fails [of X ep "0x8008" ?v w1 _ w2] wr by (cases r2) auto
    ultimately show ?thesis using r rd Inr by auto
  qed
qed

text \<open>A list of writes, then the rest: the outcome of both.\<close>

lemma after_writes_cases:
  assumes "after_writes X ws k (ep, w) = (r, s')"
  obtains i w' where "s' = (ep, w')" "i < length ws" "writes (asked w w') = take (Suc i) ws"
      "r = Inl (Throw (FailedToWrite (get_node ep) (fst (ws ! i))))" "extends w w'"
  | w1 where "writes (asked w w1) = ws" "extends w w1" "k (ep, w1) = (r, s')"
proof -
  obtain r1 w1 where wr: "write_all (rra_write X ep) ws w = (r1, w1)"
    by (cases "write_all (rra_write X ep) ws w")
  note out = rra.write_all_posts [OF wr]
  show thesis
  proof (cases r1)
    case (Inl f)
    with out wr assms that(1) show ?thesis by (auto simp: after_writes_def)
  next
    case (Inr u)
    with out wr assms that(2) [of w1] show ?thesis by (auto simp: after_writes_def)
  qed
qed

text \<open>The ring buffers do not matter for register access.\<close>

lemma reset_rings_same [simp]:
  "get_node (reset_rings ep) = get_node ep" "get_rra_port (reset_rings ep) = get_rra_port ep"
  "get_rra_handle (reset_rings ep) = get_rra_handle ep" "buffer (reset_rings ep) = buffer ep"
  by (simp_all add: reset_rings_def get_node_def get_rra_port_def get_rra_handle_def)

lemma reset_rings_access [simp]:
  "rra_read X (reset_rings ep) = rra_read X ep" "rra_write X (reset_rings ep) = rra_write X ep"
  by (simp_all add: rra_read_def rra_write_def complete_def fun_eq_iff)

text \<open>An FPGA sees of an endpoint only the connection and the response buffer.\<close>

lemma register_fpga_same:
  assumes "register_fpga X ep regs latch rd_ok" and "get_rra_port ep' = get_rra_port ep"
    and "get_rra_handle ep' = get_rra_handle ep" and "buffer ep' = buffer ep"
  shows "register_fpga X ep' regs latch rd_ok"
proof -
  have "put_effect ep' latch c R = put_effect ep latch c R" for c R using assms by (cases c) simp_all
  moreover have "get_effect ep' c R x = get_effect ep c R x" for c R x using assms by (cases c) simp_all
  moreover have "rra_call ep' c = rra_call ep c" for c
    using assms by (cases c) (simp_all add: rra_call_def)
  ultimately show ?thesis using assms(1) by (simp add: register_fpga_def)
qed

lemma register_fpga_reset_rings:
  "register_fpga X ep regs latch rd_ok \<Longrightarrow> register_fpga X (reset_rings ep) regs latch rd_ok"
  by (erule register_fpga_same) simp_all

text \<open>The registers after a list of writes, and that a register not written keeps its value.\<close>

definition registers_after ::
  "(u64 \<Rightarrow> u64 \<Rightarrow> u64 \<Rightarrow> u64) \<Rightarrow> (u64 \<times> u64) list \<Rightarrow> (u64 \<Rightarrow> u64) \<Rightarrow> u64 \<Rightarrow> u64" where
  "registers_after latch ws R = fold (\<lambda>(a, v). latch_store latch a v) ws R"

lemma registers_after_append [simp]:
  "registers_after latch (ws @ vs) R = registers_after latch vs (registers_after latch ws R)"
  by (simp add: registers_after_def)

lemma registers_after_other: "a \<notin> fst ` set ws \<Longrightarrow> registers_after latch ws R a = R a"
  unfolding registers_after_def by (rule rra_dev.load_others)

definition planned_writes :: "PartnerHostConfiguration \<Rightarrow> (u64 \<times> u64) list" where
  "planned_writes config = config_writes config @ [closure_write config]"

lemma planned_not_info: "0x8008 \<notin> fst ` set (planned_writes config)"
  by (auto simp: planned_writes_def config_writes_def ring_writes_def closure_write_def)

text \<open>The configuration on a live device whose information register is readable: its state afterwards.\<close>

locale configured_device =
  register_device "rra_write X ep" "get_node ep" "rra_read X ep" state store load rd_ok live
  for X :: "'e ext" and ep :: Endpoint and state :: "'e \<Rightarrow> 's" and store :: "u64 \<Rightarrow> u64 \<Rightarrow> 's \<Rightarrow> 's"
    and load :: "'s \<Rightarrow> u64 \<Rightarrow> u64" and rd_ok :: "u64 \<Rightarrow> bool" and live :: "'e world \<Rightarrow> bool" +
  assumes info_readable: "live w \<Longrightarrow> rd_ok 0x8008"
begin

lemma after_writes_device:
  assumes "live w" and "rra_write X ep' = rra_write X ep"
  shows "\<exists>w'. after_writes X ws k (ep', w) = k (ep', w')
    \<and> state (w_env w') = fold (\<lambda>(a, v). store a v) ws (state (w_env w)) \<and> live w'"
  using write_all_device [OF assms(1), of ws] by (auto simp: after_writes_def assms(2))

lemma announce_device:
  assumes "live w"
  shows "\<exists>w'. announce_node X (reset_rings ep, w) = (Inr (), (reset_rings ep, w'))
    \<and> state (w_env w') = fold (\<lambda>(a, v). store a v)
        [info_write (get_node ep) (load (state (w_env w)) 0x8008)] (state (w_env w)) \<and> live w'"
proof -
  let ?old = "load (state (w_env w)) 0x8008"
  let ?v = "snd (info_write (get_node ep) ?old)"
  from loads [OF assms info_readable [OF assms]] obtain w1 where
    rd: "rra_read X ep 0x8008 w = (Inr ?old, w1)" "state (w_env w1) = state (w_env w)" "live w1" by blast
  from stores [OF rd(3), of "0x8008" ?v] rd(2)
  obtain w2 where wr: "rra_write X ep 0x8008 ?v w1 = (Inr (), w2)"
    "state (w_env w2) = store 0x8008 ?v (state (w_env w))" "live w2"
    by auto
  from rd(1) wr(1) have "announce_node X (reset_rings ep, w) = (Inr (), (reset_rings ep, w2))"
    by (simp add: announce_node_def get_def put_def rra_read_rf_def rra_write_rf_def Info_RF_def rf_ok
        info_value info_write_def andthen_def)
  with wr(2,3) show ?thesis by (intro exI [of _ w2]) (simp add: info_write_def)
qed

lemma configure_live:
  assumes "live w"
  shows "\<exists>w'. configure_fpga_with X config (ep, w) = (Inr (), (reset_rings ep, w'))
    \<and> state (w_env w') = fold (\<lambda>(a, v). store a v)
        (planned_writes config @ [info_write (get_node ep) (load (state (w_env w)) 0x8008)]) (state (w_env w))
    \<and> live w'"
proof -
  let ?last = "after_writes X [closure_write config] (announce_node X)"
  let ?S = "fold (\<lambda>(a, v). store a v) (planned_writes config) (state (w_env w))"
  from after_writes_device [OF assms refl, of "config_writes config" "andthen reset_both (\<lambda>_. ?last)"]
  obtain w1 where 1: "configure_fpga_with X config (ep, w) = ?last (reset_rings ep, w1)"
    "state (w_env w1) = fold (\<lambda>(a, v). store a v) (config_writes config) (state (w_env w))" "live w1"
    by (auto simp: configure_posts reset_both_def andthen_def)
  from after_writes_device [OF 1(3) reset_rings_access(2), of "[closure_write config]" "announce_node X"] 1(2)
  obtain w2 where
    2: "?last (reset_rings ep, w1) = announce_node X (reset_rings ep, w2)" "state (w_env w2) = ?S" "live w2"
    by (auto simp: planned_writes_def)
  from 2(2) have old: "load (state (w_env w2)) 0x8008 = load (state (w_env w)) 0x8008"
    by (simp add: load_others [OF planned_not_info])
  from announce_device [OF 2(3), unfolded old] 1(1) 2(1) show ?thesis by (auto simp: 2(2))
qed

end

interpretation answering: configured_device X ep regs "latch_store latch" "\<lambda>R. R" rd_ok
    "\<lambda>_. register_fpga X ep regs latch rd_ok \<and> rd_ok 0x8008"
  for X ep regs latch rd_ok
  by unfold_locales
    (metis rra_write_device, metis rra_read_device, rule rra_dev.others, assumption, simp)

lemma configure_device:
  assumes "register_fpga X ep regs latch rd_ok" and "rd_ok 0x8008"
  shows "\<exists>w'. configure_fpga_with X config (ep, w) = (Inr (), (reset_rings ep, w'))
    \<and> regs (w_env w') = registers_after latch
        (planned_writes config @ [info_write (get_node ep) (regs (w_env w) 0x8008)]) (regs (w_env w))"
  using answering.configure_live [of X ep regs latch rd_ok config w] assms unfolding registers_after_def by blast

lemma info_write_ndid:
  "Info_ndid \<lparr>Info_raw = snd (info_write n old)\<rparr> = Info_ndid \<lparr>Info_raw = old\<rparr> OR n"
  "(Info_ndid \<lparr>Info_raw = snd (info_write n old)\<rparr> = n) = (Info_ndid \<lparr>Info_raw = old\<rparr> AND NOT n = 0)"
proof -
  have "\<lparr>Info_raw = snd (info_write n old)\<rparr> = Info_set_ndid n \<lparr>Info_raw = old\<rparr>"
    by (simp add: info_write_def info_value [symmetric])
  then show "Info_ndid \<lparr>Info_raw = snd (info_write n old)\<rparr> = Info_ndid \<lparr>Info_raw = old\<rparr> OR n"
    "(Info_ndid \<lparr>Info_raw = snd (info_write n old)\<rparr> = n) = (Info_ndid \<lparr>Info_raw = old\<rparr> AND NOT n = 0)"
    using info_ndid.rd_or [of n "\<lparr>Info_raw = old\<rparr>"] info_ndid.exact_iff [of n "\<lparr>Info_raw = old\<rparr>"]
    by (simp_all add: take_bit_full)
qed

lemma default_frequency_bound:
  assumes "unat (size_qw rb) < 0x1000000000"
  shows "if 62 * 8 \<le> unat (size_qw rb)
    then 62 * unat (default_frequency rb) + 0x7c0 div 8 \<le> unat (size_qw rb)
    else unat (size_qw rb) < unat (default_frequency rb)"
proof -
  let ?q = "size_qw rb div 62"
  have q: "unat ?q = unat (size_qw rb) div 62" by (simp add: unat_div)
  have freq: "unat (default_frequency rb) = unat (?q - 8) mod 0x100000000"
    by (simp add: default_frequency_def unsigned_ucast_eq take_bit_eq_mod)
  show ?thesis
  proof (cases "62 * 8 \<le> unat (size_qw rb)")
    case True
    then have "unat (?q - 8) = unat (size_qw rb) div 62 - 8"
      by (simp add: unat_sub word_le_nat_alt q div_le_mono)
    with assms True show ?thesis unfolding freq by simp
  next
    case False
    then have "unat ?q < 8" unfolding q by simp
    then have "?q \<in> {0, 1, 2, 3, 4, 5, 6, 7}"
      by (simp add: word_less_nat_alt word_unat_eq_iff) arith
    then have "0xfffffff8 \<le> unat (default_frequency rb)"
      unfolding freq by (auto simp: unsigned_minus_1_eq_mask mask_eq_exp_minus_1)
    with False show ?thesis by simp
  qed
qed

text \<open>The configuration acquires and releases nothing and keeps the resources of the endpoint.\<close>

lemma silent_complete: "silent (complete X E ep a)"
  unfolding complete_def by (intro avoids_intros) simp_all

lemma silent_rra_write: "silent (rra_write X ep a v)"
  unfolding rra_write_def by (intro avoids_intros silent_complete) simp_all

lemma silent_read_response: "silent read_response"
  by (simp add: avoids_def)

lemma silent_rra_read: "silent (rra_read X ep a)"
  unfolding rra_read_def by (intro avoids_intros silent_complete silent_read_response) simp_all

lemma silent_write_all: "(\<And>a v. silent (wr a v)) \<Longrightarrow> silent (write_all wr ws)"
  by (induction wr ws rule: write_all.induct) (auto intro: avoids_intros)

text \<open>Configuration steps that acquire and release nothing and leave \<open>E\<close> of the endpoint.\<close>

definition silent_step :: "('e connected, failure, 'a) comp \<Rightarrow> (Endpoint \<Rightarrow> 'b) \<Rightarrow> bool" where
  "silent_step c E \<longleftrightarrow> (\<forall>ep w. extends w (snd (snd (c (ep, w)))) \<and> exchanged w (snd (snd (c (ep, w)))) = []
     \<and> E (fst (snd (c (ep, w)))) = E ep)"

lemma silent_step_andthen:
  assumes "silent_step c E" and "\<And>x. silent_step (k x) E"
  shows "silent_step (andthen c k) E"
  unfolding silent_step_def
proof (intro allI)
  fix ep w
  obtain r ep1 w1 where c: "c (ep, w) = (r, (ep1, w1))" by (cases "c (ep, w)") auto
  with assms(1) have w1: "extends w w1" "exchanged w w1 = []" "E ep1 = E ep"
    by (auto simp: silent_step_def dest: spec [of _ ep])
      (metis fst_conv snd_conv)+
  show "extends w (snd (snd (andthen c k (ep, w)))) \<and> exchanged w (snd (snd (andthen c k (ep, w)))) = []
    \<and> E (fst (snd (andthen c k (ep, w)))) = E ep"
  proof (cases r)
    case (Inl f)
    with c w1 show ?thesis by simp
  next
    case (Inr x)
    obtain r' ep2 w2 where k: "k x (ep1, w1) = (r', (ep2, w2))" by (cases "k x (ep1, w1)") auto
    from assms(2) [of x] k have "extends w1 w2" "exchanged w1 w2 = []" "E ep2 = E ep1"
      unfolding silent_step_def by (metis fst_conv snd_conv)+
    with exchanged_nil_trans [OF w1(1,2)] w1(3) c k Inr show ?thesis by auto
  qed
qed

lemma silent_step_put: "silent_step (put X T rf) E"
  by (auto simp: silent_step_def put_def rra_write_rf_def split: prod.splits
      dest: silentD [OF silent_rra_write])

lemma silent_step_get: "silent_step (get X T) E"
proof -
  have "silent (rra_read_rf X T ep)" for ep
    unfolding rra_read_rf_def by (intro avoids_intros silent_rra_read)
  then show ?thesis
    by (auto simp: silent_step_def get_def split: prod.splits dest: silentD)
qed

lemma Endpoint_releases_reset: "Endpoint_releases (reset_rings ep) = Endpoint_releases ep"
  by (simp add: Endpoint_releases_def reset_rings_def ring_releases_def reset_def)

lemma configure_silent: "silent_step (configure_fpga_with X config) Endpoint_releases"
proof -
  have "silent_step (ret u) E" for u :: unit and E by (simp add: silent_step_def)
  moreover have "silent_step reset_both Endpoint_releases"
    by (simp add: silent_step_def reset_both_def Endpoint_releases_reset)
  moreover have "silent_step (announce_node X) Endpoint_releases"
  proof -
    have "silent_step (\<lambda>(ep, w). put X Info_RF (Info_set_ndid (get_node ep) info) (ep, w)) Endpoint_releases" for info
      by (auto simp: silent_step_def put_def rra_write_rf_def split: prod.splits
          dest: silentD [OF silent_rra_write])
    then show ?thesis
      unfolding announce_node_def by (intro silent_step_andthen silent_step_get)
  qed
  ultimately show ?thesis
    unfolding configure_fpga_with_def by (intro silent_step_andthen silent_step_put) (auto intro: silent_step_put)
qed

text \<open>A concrete configuration and FPGA for the witnesses; the FPGA's old node id is 1.\<close>

definition config7 :: PartnerHostConfiguration where
  "config7 = \<lparr>local_node = 1, protection_domain_id = 0, vpid = 5, mode = 4, config_put_address = 0x7000,
     hicann = \<lparr>start_address = 0x10000, capacity = 0x1000, threshold = 0x7c0, reset_counter = False,
       timeout = 0x100, frequency = 0\<rparr>,
     trace = \<lparr>start_address = 0x20000, capacity = 0x800000, threshold = 0x7c0, reset_counter = True,
       timeout = 0x100, frequency = 16904\<rparr>,
     hicann_trace_pkt_closure = 512\<rparr>"

text \<open>An endpoint whose ring buffers have the sizes of the source.\<close>

definition ep_default :: Endpoint where
  "ep_default = ep7\<lparr>hicann_ring_buffer := small_ring\<lparr>size_bt := 0x1000, size_qw := 0x200\<rparr>,
     trace_ring_buffer := small_ring\<lparr>size_bt := 0x800000, size_qw := 0x100000, m_region := 6\<rparr>\<rparr>"

definition fpga_world :: "(u64 \<Rightarrow> u64) world" where
  "fpga_world = \<lparr>w_env = (\<lambda>a. if a = 0x8008 then 0x100abcd else 0), w_mem = (\<lambda>_. 0), w_log = []\<rparr>"

text \<open>What the information register read once the planned writes were posted.\<close>

definition info_of :: "'e ext \<Rightarrow> Endpoint \<Rightarrow> 'e world \<Rightarrow> (u64 \<times> u64) list \<Rightarrow> u64 \<Rightarrow> bool" where
  "info_of X ep w planned old \<longleftrightarrow>
     (\<exists>v. extends w v \<and> writes (asked w v) = planned \<and> fst (rra_read X ep 0x8008 v) = Inr old)"

text \<open>How the whole configuration ends; the first lemma is the part after the ring buffers are reset.\<close>

definition config_outcome ::
  "'e ext \<Rightarrow> PartnerHostConfiguration \<Rightarrow> Endpoint \<Rightarrow> 'e world \<Rightarrow> failure + unit \<Rightarrow> Endpoint \<Rightarrow> 'e world \<Rightarrow> bool" where
  "config_outcome X config ep w r ep' w' \<longleftrightarrow>
    (let node = get_node ep; sent = writes (asked w w');
               planned = config_writes config @ [closure_write config]
      in ep' = (if length sent \<le> length (config_writes config) then ep else reset_rings ep)
       \<and> (case r of
            Inr _ \<Rightarrow> \<exists>old. info_of X ep w planned old \<and> sent = planned @ [info_write node old]
          | Inl f \<Rightarrow>
              (\<exists>i < length planned. sent = take (Suc i) planned
                 \<and> f = Throw (FailedToWrite node (fst (planned ! i))))
              \<or> sent = planned \<and> f = Throw (FailedToRead node 0x8008)
              \<or> (\<exists>old. info_of X ep w planned old \<and> sent = planned @ [info_write node old]
                 \<and> f = Throw (FailedToWrite node 0x8008))))"

lemma closure_outcome:
  assumes "after_writes X [closure_write config] (announce_node X) (reset_rings ep, w1) = (r, (ep', w'))"
    and "extends w w1" and "writes (asked w w1) = config_writes config"
  shows "config_outcome X config ep w r ep' w'"
proof -
  let ?ep = "reset_rings ep" and ?pre = "config_writes config" and ?c = "closure_write config"
  have same: "get_node ?ep = get_node ep" "rra_read X ?ep = rra_read X ep"
    by (simp_all add: rra_read_def complete_def fun_eq_iff)
  from assms(1) show ?thesis
  proof (rule after_writes_cases, goal_cases)
    case c: (1 i v)
    with asked_trans [OF assms(2), of v] assms(3) same
    show ?thesis by (auto simp: config_outcome_def Let_def nth_append intro!: exI [of _ "length ?pre"])
  next
    case c: (2 w2)
    have w2: "extends w w2" "writes (asked w w2) = ?pre @ [?c]"
      using asked_trans [OF assms(2) c(2)] assms c by (auto intro: extends_trans)
    note info = announce_node_outcome [OF c(3)]
    then have log: "writes (asked w w') = ?pre @ [?c] @ writes (asked w2 w')" "ep' = ?ep"
      using asked_trans [OF w2(1), of w'] w2(2) by simp_all
    from info same consider old where "fst (rra_read X ep 0x8008 w2) = Inr old"
        "writes (asked w2 w') = [info_write (get_node ep) old]"
        "r = Inr () \<or> r = Inl (Throw (FailedToWrite (get_node ep) 0x8008))"
      | "writes (asked w2 w') = []" "r = Inl (Throw (FailedToRead (get_node ep) 0x8008))" by auto
    then show ?thesis
    proof cases
      case 1
      from w2 1(1) have "info_of X ep w (?pre @ [?c]) old" by (auto simp: info_of_def)
      with 1 log show ?thesis by (auto simp: config_outcome_def Let_def)
    next
      case 2
      with log show ?thesis by (simp add: config_outcome_def Let_def)
    qed
  qed
qed

lemma configure_fpga_outcome:
  assumes "configure_fpga_with X config (ep, w) = (r, (ep', w'))"
  shows "config_outcome X config ep w r ep' w'"
proof (rule after_writes_cases [OF assms [unfolded configure_posts]], goal_cases)
  case (1 i v)
  then show ?thesis by (auto simp: config_outcome_def Let_def nth_append intro!: exI [of _ i])
next
  case (2 w1)
  then show ?thesis by (intro closure_outcome [of X config ep w1]) (simp_all add: reset_both_def andthen_def)
qed

text \<open>The configuration runs through on the concrete librma2 of the lifecycle when nothing is pending.\<close>

lemma idle_write:
  assumes "w_env w = 0"
  shows "\<exists>w'. rra_write queue_ext ep a v w = (Inr (), w') \<and> w_env w' = 0"
proof -
  have "r_status (answer queue_ext c w) = RMA2_SUCCESS" if "rra_call ep c" for c w
    using that by (cases c) (simp_all add: rra_call_def answer_def ask_def)
  with assms show ?thesis
    by (simp add: rra_write_def complete_def rra_call_def idle_after)
qed

lemma idle_writes:
  assumes "w_env w = 0"
  shows "\<exists>w'. write_all (rra_write queue_ext ep) ws w = (Inr (), w') \<and> w_env w' = 0"
  using assms
proof (induction ws arbitrary: w)
  case (Cons av ws)
  from idle_write [OF Cons.prems, of ep "fst av" "snd av"] obtain w1 where
    "rra_write queue_ext ep (fst av) (snd av) w = (Inr (), w1)" "w_env w1 = 0" by blast
  with Cons.IH [of w1] show ?case by (cases av) simp
qed simp

lemma idle_read:
  assumes "w_env w = 0"
  shows "\<exists>x w'. rra_read queue_ext ep a w = (Inr x, w') \<and> w_env w' = 0"
proof -
  have "r_status (answer queue_ext c w) = RMA2_SUCCESS" if "rra_call ep c" for c w
    using that by (cases c) (simp_all add: rra_call_def answer_def ask_def)
  with assms show ?thesis
    by (simp add: rra_read_def complete_def rra_call_def idle_after)
qed

lemma session_configures:
  assumes "w_env w = 0"
  shows "\<exists>w2. configure_fpga_with queue_ext config (ep, w) = (Inr (), (reset_rings ep, w2)) \<and> w_env w2 = 0"
proof -
  from idle_writes [OF assms, of ep "config_writes config"] obtain w1 where
    1: "write_all (rra_write queue_ext ep) (config_writes config) w = (Inr (), w1)" "w_env w1 = 0" by blast
  from idle_writes [OF 1(2), of "reset_rings ep" "[closure_write config]"] obtain w2 where
    2: "write_all (rra_write queue_ext (reset_rings ep)) [closure_write config] w1 = (Inr (), w2)" "w_env w2 = 0"
    by blast
  from idle_read [OF 2(2), of "reset_rings ep" "0x8008"] obtain x w3 where
    3: "rra_read queue_ext (reset_rings ep) 0x8008 w2 = (Inr x, w3)" "w_env w3 = 0" by blast
  from idle_write [OF 3(2), of "reset_rings ep" "0x8008"] 3(1) have
    "\<exists>w4. announce_node queue_ext (reset_rings ep, w2) = (Inr (), (reset_rings ep, w4)) \<and> w_env w4 = 0"
    by (simp add: announce_node_def get_def put_def rra_read_rf_def rra_write_rf_def Info_RF_def rf_ok andthen_def)
      (metis (mono_tags, lifting) case_prod_conv)
  with 1(1) 2(1) show ?thesis
    by (simp add: configure_posts after_writes_def reset_both_def andthen_def)
qed

subsection \<open>Properties of the configuration\<close>

text \<open>
  C15: the configuration posts the writes of \<open>config_writes\<close>, then the packet closure, then the
  information register with the node id added to what was read from it, in that order and each
  once. A failure stops it at once: only the writes up to and including the failing one have been
  posted, and the exception names the register. The ring buffers are reset exactly when both
  buffers have been initialised, and nothing else of the endpoint changes.
\<close>

theorem configure_fpga_posts:
  assumes "configure_fpga_with X config (ep, w) = (r, (ep', w'))"
  shows "let node = get_node ep; sent = writes (asked w w');
             planned = config_writes config @ [closure_write config]
    in ep' = (if length sent \<le> length (config_writes config) then ep else reset_rings ep)
     \<and> (case r of
          Inr _ \<Rightarrow> \<exists>old. info_of X ep w planned old \<and> sent = planned @ [info_write node old]
        | Inl f \<Rightarrow>
            (\<exists>i < length planned. sent = take (Suc i) planned
               \<and> f = Throw (FailedToWrite node (fst (planned ! i))))
            \<or> sent = planned \<and> f = Throw (FailedToRead node 0x8008)
            \<or> (\<exists>old. info_of X ep w planned old \<and> sent = planned @ [info_write node old]
               \<and> f = Throw (FailedToWrite node 0x8008)))"
  using configure_fpga_outcome [OF assms] unfolding config_outcome_def .

theorem configure_fpga_posts_witness:
  "\<exists>w' old. configure_fpga_with fpga_ext config7 (ep7, fpga_world) = (Inr (), (reset_rings ep7, w'))
    \<and> writes (asked fpga_world w') =
      [(0x5298, 0x100500000001), (0x52a0, 0x7000),
       (0x5080, 0x10000), (0x5088, 0x1000), (0x5090, 0x7c0), (0x52b0, 0x100),
       (0x5000, 0x20000), (0x5008, 0x800000), (0x5010, 0x7c0), (0x52a8, 0x420800000100), (0x5020, 1),
       (0x5040, 1), (0x50c0, 1), (0x52b8, 512), (0x8008, old OR push_bit 24 2)]"
proof -
  obtain w' where run:
    "configure_fpga_with fpga_ext config7 (ep7, fpga_world) = (Inr (), (reset_rings ep7, w'))"
    using configure_device [OF fpga_ext_device [of "\<lambda>_. True"], of config7 fpga_world] by blast
  let ?planned = "config_writes config7 @ [closure_write config7]"
  from configure_fpga_posts [OF run] obtain old where
    "writes (asked fpga_world w') = ?planned @ [info_write 2 old]" by (auto simp: Let_def)
  with run show ?thesis
    by (intro exI [of _ w'] exI [of _ old]) (simp add: config_writes_def closure_write_def ring_writes_def info_write_def config7_def
        host_endpoint_word_def)
qed

text \<open>
  C24: on an FPGA whose registers answer and whose information register is readable the configuration succeeds and leaves in the registers
  what the writes leave one after the other; the value written to the information register carries
  the node id of the endpoint exactly when the node id that was there has no other bit set,
  because the setter ORs.
\<close>

theorem configure_fpga_effect:
  assumes "register_fpga X ep regs latch rd_ok" and "rd_ok 0x8008"
  shows "let old = regs (w_env w) 0x8008; last = info_write (get_node ep) old;
             old_id = Info_ndid \<lparr>Info_raw = old\<rparr>; new_id = Info_ndid \<lparr>Info_raw = snd last\<rparr>
    in (\<exists>w'. configure_fpga_with X config (ep, w) = (Inr (), (reset_rings ep, w'))
         \<and> regs (w_env w') = registers_after latch (planned_writes config @ [last]) (regs (w_env w)))
       \<and> new_id = old_id OR get_node ep
       \<and> (new_id = get_node ep) = (old_id AND NOT (get_node ep) = 0)"
  using configure_device [OF assms(1,2), of config w] info_write_ndid [of "get_node ep"]
  by (simp only: Let_def)

theorem configure_fpga_effect_witness:
  "\<exists>w'. configure_fpga_with fpga_ext config7 (ep7, fpga_world) = (Inr (), (reset_rings ep7, w'))
    \<and> w_env w' 0x8008 = 0x300abcd \<and> w_env w' 0x52b8 = 512
    \<and> Info_ndid \<lparr>Info_raw = 0x300abcd\<rparr> = Info_ndid \<lparr>Info_raw = 0x100abcd\<rparr> OR 2"
proof -
  have "registers_after (\<lambda>a old v. v) (planned_writes config7 @ [info_write 2 0x100abcd]) (w_env fpga_world) 0x8008
      = 0x300abcd"
    and "registers_after (\<lambda>a old v. v) (planned_writes config7 @ [info_write 2 0x100abcd]) (w_env fpga_world) 0x52b8
      = 512"
    by (simp_all add: registers_after_def latch_store_def planned_writes_def info_write_def closure_write_def config7_def)
  with configure_fpga_effect [OF fpga_ext_device [of "\<lambda>a. a \<notin> {0x5020, 0x50a0}"], of fpga_world config7] show ?thesis
    by (auto simp: Let_def fpga_world_def info_write_def)
qed

text \<open>
  The default configuration asks for the node id of the host and the two network addresses and
  then configures with mode 4, threshold 0x7c0, time-out 0x100 and closure 512. With the ring
  buffers as an endpoint makes them (1 page and 2048 pages) the trace ring notifies every 16904
  packets, and the HICANN ring, whose size is less than nine packets, every 0.
\<close>

theorem configure_fpga_defaults:
  assumes "size_bt (hicann_ring_buffer ep) = 0x1000" and "size_qw (hicann_ring_buffer ep) = 0x200"
    and "size_bt (trace_ring_buffer ep) = 0x800000" and "size_qw (trace_ring_buffer ep) = 0x100000"
  shows "let ask_node = rma2_get_nodeid (get_rma_port ep);
             ask_hicann = rma2_get_nla (m_region (hicann_ring_buffer ep)) 0;
             ask_trace = rma2_get_nla (m_region (trace_ring_buffer ep)) 0;
             w1 = after X ask_node w; w2 = after X ask_hicann w1
    in configure_fpga X (ep, w) = configure_fpga_with X
        \<lparr>local_node = ucast (r_out (answer X ask_node w)), protection_domain_id = 0, vpid = get_rma_vpid ep,
         mode = 4, config_put_address = response_address (buffer ep),
         hicann = \<lparr>start_address = r_out (answer X ask_hicann w1), capacity = 0x1000, threshold = 0x7c0,
           reset_counter = False, timeout = 0x100, frequency = 0\<rparr>,
         trace = \<lparr>start_address = r_out (answer X ask_trace w2), capacity = 0x800000, threshold = 0x7c0,
           reset_counter = False, timeout = 0x100, frequency = 16904\<rparr>,
         hicann_trace_pkt_closure = 512\<rparr> (ep, after X ask_trace w2)"
  using assms
  by (simp add: configure_fpga_def rb_nla_def default_frequency_def Let_def)

theorem configure_fpga_defaults_witness:
  "\<exists>config. configure_fpga (always RMA2_SUCCESS 3) (ep_default, world0)
      = configure_fpga_with (always RMA2_SUCCESS 3) config
          (ep_default, world0\<lparr>w_log := [rma2_get_nodeid 8, rma2_get_nla 5 0, rma2_get_nla 6 0]\<rparr>)
    \<and> frequency (hicann config) = 0 \<and> frequency (trace config) = 16904"
  using configure_fpga_defaults [of ep_default "always RMA2_SUCCESS 3" world0]
  by (intro exI conjI) (auto simp: ep_default_def ep7_def small_ring_def conn7_def get_rma_port_def
      get_port_def world0_def Let_def)

text \<open>
  For every ring of at least eight maximal packets (62 quad words each) the default frequency
  keeps its promise: that many maximal packets and the threshold of 0x7c0 bytes fit into the
  ring together. For a smaller ring the subtraction wraps around and asks for more packets
  than the ring holds.
\<close>

theorem default_frequency_fits:
  assumes "unat (size_qw rb) < 0x1000000000"
  shows "if 62 * 8 \<le> unat (size_qw rb)
    then 62 * unat (default_frequency rb) + 0x7c0 div 8 \<le> unat (size_qw rb)
    else unat (size_qw rb) < unat (default_frequency rb)"
  by (rule default_frequency_bound [OF assms])

theorem default_frequency_fits_witness:
  "62 * unat (default_frequency (small_ring\<lparr>size_qw := 0x100000\<rparr>)) + 0x7c0 div 8 \<le> (0x100000::nat)"
  using default_frequency_fits [of "small_ring\<lparr>size_qw := 0x100000\<rparr>"] by simp

end
