(* ===== verification/Endpoint_States.thy ===== *)
theory Endpoint_States
  imports Configure_Fpga Simulations
begin

text \<open>
  The states an endpoint can be in while a client uses it: built by its constructor, then changed
  by any sequence of its operations, of turns of the polling thread, and of writes of the FPGA into
  the two rings. \<open>endpoint_wf\<close> is the type of a live endpoint: both ring invariants, the sizes the
  constructor asks for, and the port that rings and poller share. Every state reached has it, and
  therefore no receive is ever undefined.
\<close>

subsection \<open>The operations as steps\<close>

text \<open>What leaves the endpoint alone: a computation on the world.\<close>

definition accesses :: "'e ext \<Rightarrow> Endpoint \<Rightarrow> 'e world \<Rightarrow> 'e world set" where
  "accesses X ep w =
     {snd (rra_read X ep a w) |a. True} \<union> {snd (rra_write X ep a v w) |a v. True}
     \<union> {snd (rma_send X ep n w) |n. True} \<union> {snd (write_send i x w) |i x. True}
     \<union> {snd (ping X ep w)}"

text \<open>A receive that throws has polled: what it found readable stays so.\<close>

inductive endpoint_step :: "'e ext \<Rightarrow> Endpoint \<times> 'e world \<Rightarrow> Endpoint \<times> 'e world \<Rightarrow> bool" for X where
  access: "w' \<in> accesses X ep w \<Longrightarrow> endpoint_step X (ep, w) (ep, w')"
| configure: "configure_fpga_with X config (ep, w) = (r, s') \<Longrightarrow> endpoint_step X (ep, w) s'"
| configure_default: "configure_fpga X (ep, w) = (r, s') \<Longrightarrow> endpoint_step X (ep, w) s'"
| receive_trace: "receive X bs (trace_ring_buffer ep) (poller ep) w = Inr (words, rb, p, rest, w') \<Longrightarrow>
    endpoint_step X (ep, w) (ep\<lparr>trace_ring_buffer := rb, poller := p\<rparr>, w')"
| receive_hicann: "receive X bs (hicann_ring_buffer ep) (poller ep) w = Inr (words, rb, p, rest, w') \<Longrightarrow>
    endpoint_step X (ep, w) (ep\<lparr>hicann_ring_buffer := rb, poller := p\<rparr>, w')"
| throw_trace: "receive X bs (trace_ring_buffer ep) (poller ep) w = Inl (Throw e) \<Longrightarrow>
    poll bs (trace_ring_buffer ep) (poller ep) = Inr (b, rb, p, rest) \<Longrightarrow>
    endpoint_step X (ep, w) (ep\<lparr>trace_ring_buffer := rb, poller := p\<rparr>, w)"
| throw_hicann: "receive X bs (hicann_ring_buffer ep) (poller ep) w = Inl (Throw e) \<Longrightarrow>
    poll bs (hicann_ring_buffer ep) (poller ep) = Inr (b, rb, p, rest) \<Longrightarrow>
    endpoint_step X (ep, w) (ep\<lparr>hicann_ring_buffer := rb, poller := p\<rparr>, w)"
| reset_trace: "endpoint_step X (ep, w) (ep\<lparr>trace_ring_buffer := reset (trace_ring_buffer ep)\<rparr>, w)"
| reset_hicann: "endpoint_step X (ep, w) (ep\<lparr>hicann_ring_buffer := reset (hicann_ring_buffer ep)\<rparr>, w)"
| polls: "poll_notifications X n (poller ep) w = (Inr p, w') \<Longrightarrow>
    endpoint_step X (ep, w) (ep\<lparr>poller := p\<rparr>, w')"
| fpga_writes_trace: "endpoint_step X (ep, w)
    (ep\<lparr>trace_ring_buffer := (trace_ring_buffer ep)\<lparr>m_buffer := m\<rparr>\<rparr>, w)"
| fpga_writes_hicann: "endpoint_step X (ep, w)
    (ep\<lparr>hicann_ring_buffer := (hicann_ring_buffer ep)\<lparr>m_buffer := m\<rparr>\<rparr>, w)"

inductive_cases endpoint_stepE [elim!]: "endpoint_step X (ep, w) s'"

inductive endpoint_state :: "'e ext \<Rightarrow> Endpoint \<times> 'e world \<Rightarrow> bool" for X where
  built: "Endpoint_new X ts hs tc hc n w = Some (Inr ep, (p, w')) \<Longrightarrow> endpoint_state X (ep, w')"
| step: "endpoint_state X s \<Longrightarrow> endpoint_step X s s' \<Longrightarrow> endpoint_state X s'"

subsection \<open>The type of a live endpoint\<close>

definition ring_of :: "Endpoint \<Rightarrow> nat \<Rightarrow> RingBuffer \<Rightarrow> bool" where
  "ring_of ep npages rb \<longleftrightarrow> ring_wf rb
     \<and> unat (size_qw rb) = 512 * npages \<and> unat (size_bt rb) = 4096 * npages
     \<and> rb_port rb = get_rma_port ep \<and> rb_handle rb = get_rma_handle ep"

definition endpoint_wf :: "Endpoint \<Rightarrow> bool" where
  "endpoint_wf ep \<longleftrightarrow> ring_of ep 1 (hicann_ring_buffer ep) \<and> ring_of ep 2048 (trace_ring_buffer ep)
     \<and> np_port (poller ep) = get_rma_port ep \<and> m_running (poller ep)"

text \<open>What an operation keeps of a ring buffer: everything but its contents and its counters.\<close>

definition same_ring :: "RingBuffer \<Rightarrow> RingBuffer \<Rightarrow> bool" where
  "same_ring rb rb' \<longleftrightarrow> size_qw rb' = size_qw rb \<and> size_bt rb' = size_bt rb
     \<and> rb_port rb' = rb_port rb \<and> rb_handle rb' = rb_handle rb"

lemma ring_of_same: "ring_of ep n rb \<Longrightarrow> same_ring rb rb' \<Longrightarrow> ring_wf rb' \<Longrightarrow> ring_of ep n rb'"
  by (simp add: ring_of_def same_ring_def)

lemma ring_of_updates [simp]:
  "ring_of (ep\<lparr>poller := p\<rparr>) = ring_of ep" "ring_of (ep\<lparr>trace_ring_buffer := rb\<rparr>) = ring_of ep"
  "ring_of (ep\<lparr>hicann_ring_buffer := rb\<rparr>) = ring_of ep" "ring_of (reset_rings ep) = ring_of ep"
  by (simp_all add: ring_of_def fun_eq_iff get_rma_port_def get_rma_handle_def reset_rings_def)

lemma rma_port_updates [simp]:
  "get_rma_port (ep\<lparr>poller := p\<rparr>) = get_rma_port ep"
  "get_rma_port (ep\<lparr>trace_ring_buffer := rb\<rparr>) = get_rma_port ep"
  "get_rma_port (ep\<lparr>hicann_ring_buffer := rb\<rparr>) = get_rma_port ep"
  by (simp_all add: get_rma_port_def)

lemma reset_ring_of: "ring_of ep n rb \<Longrightarrow> ring_of ep n (reset rb)"
  by (rule ring_of_same) (auto simp: same_ring_def reset_def ring_of_def ring_wf_def word_less_nat_alt)

lemma fill_ring_of: "ring_of ep n rb \<Longrightarrow> ring_of ep n (rb\<lparr>m_buffer := m\<rparr>)"
  by (simp add: ring_of_def ring_wf_def)

lemma receive_ring_of:
  assumes "ring_of ep n rb" and "receive X bs rb p w = Inr (words, rb', p', rest, w')"
  shows "ring_of ep n rb' \<and> np_port p' = np_port p \<and> m_running p' = m_running p"
proof -
  from receive_Inr [OF assms(2)] obtain packets where cp: "consume_packets bs p = Inr (packets, p', rest)"
    and fits: "m_readable_words rb + packets \<le> vector_max_size" .
  from assms(1) have "ring_wf rb" by (simp add: ring_of_def)
  from receive_spec [OF this cp refl fits, of X w] assms(2)
  have "ring_wf rb'" "same_ring rb rb'" by (auto simp: same_ring_def)
  with ring_of_same [OF assms(1)] consume_packets_uses [OF cp] show ?thesis by auto
qed

lemma poll_ring_of:
  assumes "ring_of ep n rb" and "poll bs rb p = Inr (b, rb', p', rest)"
  shows "ring_of ep n rb' \<and> np_port p' = np_port p \<and> m_running p' = m_running p \<and> ring_releases rb' = ring_releases rb"
proof -
  from assms(2) obtain packets where "consume_packets bs p = Inr (packets, p', rest)"
    "rb' = rb\<lparr>m_readable_words := m_readable_words rb + packets\<rparr>"
    by (auto simp: poll_def split: sum.splits)
  with assms(1) consume_packets_uses [OF this(1)] show ?thesis
    by (auto simp: ring_of_def ring_wf_def ring_releases_def)
qed

lemma poll_once_keeps:
  "poll_once X s w = (Inr s', w') \<Longrightarrow> np_port (snd s') = np_port (snd s) \<and> m_running (snd s') = m_running (snd s)"
  by (auto simp: poll_once_def andthen_def split: prod.splits sum.splits option.splits dest: dispatch_Inr)

lemma poll_loop_keeps:
  "poll_loop X n s w = (Inr s', w') \<Longrightarrow> np_port (snd s') = np_port (snd s) \<and> m_running (snd s') = m_running (snd s)"
proof (induction X n s arbitrary: w rule: poll_loop.induct)
  case (2 X n s)
  from "2.prems" obtain t v where t: "poll_once X s w = (Inr t, v)" "poll_loop X n t v = (Inr s', w')"
    by (auto simp: andthen_def split: prod.splits sum.splits)
  from "2.IH" [OF t(2)] poll_once_keeps [OF t(1)] show ?case by simp
qed simp

text \<open>The configuration changes the endpoint only by resetting both ring buffers.\<close>

lemma configure_changes:
  "configure_fpga_with X config (ep, w) = (r, (ep', w')) \<Longrightarrow> ep' = ep \<or> ep' = reset_rings ep"
  by (drule configure_fpga_outcome) (auto simp: config_outcome_def Let_def)

lemma configure_default_changes:
  "configure_fpga X (ep, w) = (r, (ep', w')) \<Longrightarrow> ep' = ep \<or> ep' = reset_rings ep"
  by (auto simp: configure_fpga_def split: prod.splits sum.splits dest: configure_changes)

subsection \<open>Construction has the type, every step keeps it\<close>

lemma RingBuffer_new_ring:
  assumes "RingBuffer_new X port handle npages contents w = (Inr rb, w')"
    and "unat npages < 0x10000000000000" and "0 < npages"
  shows "ring_wf rb \<and> unat (size_qw rb) = 512 * unat npages \<and> unat (size_bt rb) = 4096 * unat npages
    \<and> rb_port rb = port \<and> rb_handle rb = handle"
proof -
  from assms(2) have n: "unat (npages * 4096) = unat npages * 4096" by (simp add: unat_word_ariths)
  then have q: "unat (npages * 4096 div 8) = 512 * unat npages" by (simp add: unat_div_distrib)
  from assms(1) have "size_bt rb = npages * 4096" "size_qw rb = npages * 4096 div 8" "rb_port rb = port"
    "rb_handle rb = handle" "m_read_index rb = 0" "m_read_words rb = 0"
    by (auto simp: RingBuffer_new_def Let_def rb_page_size_bt_def throw_on_error_def split: if_splits)
  with n q assms(3) show ?thesis
    by (simp add: ring_wf_def word_less_nat_alt num_words_to_notify_def)
qed

lemma endpoint_wf_reset: "endpoint_wf ep \<Longrightarrow> endpoint_wf (reset_rings ep)"
  by (simp add: endpoint_wf_def)
    (simp add: reset_rings_def reset_ring_of get_rma_port_def)

lemma endpoint_wf_step:
  assumes "endpoint_step X s s'" and "endpoint_wf (fst s)"
  shows "endpoint_wf (fst s')"
  using assms
proof (cases rule: endpoint_step.cases)
  case (receive_trace bs ep w words rb p rest w')
  with assms(2) receive_ring_of [OF _ receive_trace(3), of ep 2048] show ?thesis
    by (auto simp: endpoint_wf_def)
next
  case (receive_hicann bs ep w words rb p rest w')
  with assms(2) receive_ring_of [OF _ receive_hicann(3), of ep 1] show ?thesis
    by (auto simp: endpoint_wf_def)
next
  case (throw_trace bs ep w e b rb p rest)
  with assms(2) poll_ring_of [OF _ throw_trace(4), of ep 2048] show ?thesis by (auto simp: endpoint_wf_def)
next
  case (throw_hicann bs ep w e b rb p rest)
  with assms(2) poll_ring_of [OF _ throw_hicann(4), of ep 1] show ?thesis by (auto simp: endpoint_wf_def)
next
  case (polls n ep w p w')
  then have "np_port p = np_port (poller ep) \<and> m_running p = m_running (poller ep)"
    by (auto simp: poll_notifications_def split: prod.splits sum.splits dest: poll_loop_keeps)
  with polls assms(2) show ?thesis by (auto simp: endpoint_wf_def)
next
  case (configure config ep w r)
  with configure_changes [of X config ep w r "fst s'" "snd s'"] endpoint_wf_reset assms(2) show ?thesis by auto
next
  case (configure_default ep w r)
  with configure_default_changes [of X ep w r "fst s'" "snd s'"] endpoint_wf_reset assms(2) show ?thesis by auto
qed (auto simp: endpoint_wf_def reset_ring_of fill_ring_of)

interpretation endpoint_system: stepped_invariant "endpoint_step X" "\<lambda>s. endpoint_wf (fst s)" for X
  by unfold_locales (rule endpoint_wf_step)

text \<open>A member that was constructed, out of a construction that succeeded.\<close>

lemma member_Inr:
  assumes "member c ds k (p, w) = Some (Inr x, s')"
  obtains y w1 where "c w = (Inr y, w1)" "k y (p, w1) = Some (Inr x, s')"
  using assms by (auto simp: member_def unwind_def split: prod.splits sum.splits failure.splits option.splits)

lemma body_Inr: "Endpoint_body X ts hs ep s = Some (Inr ep', s') \<Longrightarrow> ep' = ep"
  by (auto simp: Endpoint_body_def unwind_def split: prod.splits bool.splits sum.splits failure.splits option.splits)

lemma endpoint_wf_new:
  assumes "Endpoint_new X ts hs tc hc n w = Some (Inr ep, (p, w'))"
  shows "endpoint_wf ep"
proof -
  from assms [unfolded Endpoint_new_def Let_def] obtain rra rma b hicann trace w3 w3' w4 w4' where
    h: "RingBuffer_new X (get_port rma) (get_handle rma) 1 hc w3 = (Inr hicann, w3')"
    and t: "RingBuffer_new X (get_port rma) (get_handle rma) 2048 tc w4 = (Inr trace, w4')"
    and ep: "ep = \<lparr>m_node = n, m_rra = rra, m_rma = rma, poller = NotificationPoller_new (get_port rma), buffer = b,
      hicann_ring_buffer = hicann, trace_ring_buffer = trace\<rparr>"
    by (elim member_Inr) (auto elim!: member_Inr dest!: body_Inr)
  from RingBuffer_new_ring [OF h] RingBuffer_new_ring [OF t] show ?thesis
    by (simp add: endpoint_wf_def ring_of_def ep get_rma_port_def get_rma_handle_def NotificationPoller_new_def)
qed

lemma endpoint_state_wf: "endpoint_state X s \<Longrightarrow> endpoint_wf (fst s)"
  by (induction rule: endpoint_state.induct) (simp_all add: endpoint_wf_new endpoint_wf_step)

subsection \<open>No step acquires a resource or gives one back\<close>

lemma own_notification_keeps: "list_all (own_notification rb) cs \<Longrightarrow> filter is_owning cs = []"
  by (induction cs) (auto simp: own_notification_def)

lemma receive_keeps_resources:
  assumes "ring_wf rb" and "receive X bs rb p w = Inr (words, rb', p', rest, w')"
  shows "extends w w' \<and> exchanged w w' = [] \<and> ring_releases rb' = ring_releases rb"
proof -
  from receive_Inr [OF assms(2)] obtain packets where cp: "consume_packets bs p = Inr (packets, p', rest)"
    and fits: "m_readable_words rb + packets \<le> vector_max_size" .
  from receive_spec [OF assms(1) cp refl fits, of X w] assms(2) show ?thesis
    by (auto simp: exchanged_def ring_releases_def own_notification_keeps)
qed

lemma silent_poll_loop: "silent (poll_loop X n s)"
proof (induction X n s rule: poll_loop.induct)
  case (1 X s)
  show ?case unfolding poll_loop.simps by (rule avoids_ret)
next
  case (2 X n s)
  have "silent (poll_once X s)"
    unfolding poll_once_def poll_fetch_def
    by (intro avoids_intros) (auto split: prod.split option.split sum.split intro!: avoids_intros)
  with 2 show ?case unfolding poll_loop.simps by (intro avoids_andthen)
qed

lemma silent_rma_send: "silent (rma_send X ep n)"
  unfolding rma_send_def by (intro avoids_intros) simp

lemma silent_write_send: "silent (write_send i x)"
  by (simp add: avoids_def write_send_def buffer_put_def extends_def exchanged_def asked_def)

lemma silent_snd: "silent c \<Longrightarrow> extends w (snd (c w)) \<and> exchanged w (snd (c w)) = []"
  by (simp add: avoids_def exchanged_def)

lemma access_silent:
  assumes "w' \<in> accesses X ep w"
  shows "extends w w' \<and> exchanged w w' = []"
proof -
  from assms consider a where "w' = snd (rra_read X ep a w)" | a v where "w' = snd (rra_write X ep a v w)"
    | n where "w' = snd (rma_send X ep n w)" | i x where "w' = snd (write_send i x w)"
    | "w' = snd (ping X ep w)"
    by (auto simp: accesses_def)
  then show ?thesis
  proof cases
    case 5
    then show ?thesis using ping_silent [of X ep w] by (metis prod.collapse)
  qed (use silent_snd silent_rra_read silent_rra_write silent_rma_send silent_write_send in metis)+
qed

lemma configure_default_silent: "silent_step (configure_fpga X) Endpoint_releases"
  unfolding silent_step_def
proof (intro allI)
  fix ep w
  have same: "rb_nla X rb 0 v = (Inr (r_out (answer X (rma2_get_nla (m_region rb) 0) v)), after X (rma2_get_nla (m_region rb) 0) v)"
    for rb v by (simp add: rb_nla_def)
  let ?w = "after X (rma2_get_nla (m_region (trace_ring_buffer ep)) 0)
    (after X (rma2_get_nla (m_region (hicann_ring_buffer ep)) 0) (after X (rma2_get_nodeid (get_rma_port ep)) w))"
  obtain config where run: "configure_fpga X (ep, w) = configure_fpga_with X config (ep, ?w)"
    by (simp add: configure_fpga_def same)
  have "extends w ?w" "exchanged w ?w = []" by (auto simp: exchanged_def asked_def extends_def)
  with configure_silent [of X config] show "extends w (snd (snd (configure_fpga X (ep, w))))
      \<and> exchanged w (snd (snd (configure_fpga X (ep, w)))) = []
      \<and> Endpoint_releases (fst (snd (configure_fpga X (ep, w)))) = Endpoint_releases ep"
    unfolding run silent_step_def using exchanged_nil_trans [of w ?w] by blast
qed

lemma endpoint_step_silent:
  assumes "endpoint_step X s s'" and "endpoint_wf (fst s)"
  shows "extends (snd s) (snd s') \<and> exchanged (snd s) (snd s') = []
    \<and> Endpoint_releases (fst s') = Endpoint_releases (fst s)"
  using assms
proof (cases rule: endpoint_step.cases)
  case (access w' ep w)
  with access_silent [of w' X ep w] show ?thesis by simp
next
  case (receive_trace bs ep w words rb p rest w')
  from assms(2) receive_trace have "ring_wf (trace_ring_buffer ep)" by (simp add: endpoint_wf_def ring_of_def)
  from receive_keeps_resources [OF this receive_trace(3)] receive_trace show ?thesis
    by (simp add: Endpoint_releases_def)
next
  case (receive_hicann bs ep w words rb p rest w')
  from assms(2) receive_hicann have "ring_wf (hicann_ring_buffer ep)" by (simp add: endpoint_wf_def ring_of_def)
  from receive_keeps_resources [OF this receive_hicann(3)] receive_hicann show ?thesis
    by (simp add: Endpoint_releases_def)
next
  case (throw_trace bs ep w e b rb p rest)
  with assms(2) poll_ring_of [OF _ throw_trace(4), of ep 2048] show ?thesis
    by (simp add: Endpoint_releases_def endpoint_wf_def)
next
  case (throw_hicann bs ep w e b rb p rest)
  with assms(2) poll_ring_of [OF _ throw_hicann(4), of ep 1] show ?thesis
    by (simp add: Endpoint_releases_def endpoint_wf_def)
next
  case (polls n ep w p w')
  then obtain t where "poll_loop X n (1, poller ep) w = (Inr t, w')"
    by (auto simp: poll_notifications_def split: prod.splits sum.splits)
  from silentD [OF silent_poll_loop this] polls show ?thesis by (simp add: Endpoint_releases_def)
next
  case (configure config ep w r)
  with configure_silent [of X config] show ?thesis unfolding silent_step_def by (metis fst_conv snd_conv)
next
  case (configure_default ep w r)
  with configure_default_silent [of X] show ?thesis unfolding silent_step_def by (metis fst_conv snd_conv)
qed (simp_all add: Endpoint_releases_def ring_releases_def reset_def)

text \<open>A client's use of an endpoint: any number of steps.\<close>

definition endpoint_run :: "'e ext \<Rightarrow> Endpoint \<times> 'e world \<Rightarrow> Endpoint \<times> 'e world \<Rightarrow> bool" where
  "endpoint_run X = (endpoint_step X)\<^sup>*\<^sup>*"

lemma endpoint_run_silent:
  assumes "endpoint_run X s s'" and "endpoint_wf (fst s)"
  shows "endpoint_wf (fst s') \<and> extends (snd s) (snd s') \<and> exchanged (snd s) (snd s') = []
    \<and> Endpoint_releases (fst s') = Endpoint_releases (fst s)"
  using assms(1) unfolding endpoint_run_def
proof (induction rule: rtranclp_induct)
  case base
  with assms(2) show ?case by simp
next
  case (step s1 s2)
  then have wf: "endpoint_wf (fst s1)" by simp
  from endpoint_system.keeps [OF wf step.hyps(2)] endpoint_step_silent [OF step.hyps(2) wf] step.IH
    exchanged_nil_trans [of "snd s" "snd s1" "snd s2"] show ?case by simp
qed

subsection \<open>Properties of the states\<close>

lemma receive_typed:
  assumes "ring_wf rb"
  shows "case receive X bs rb p w of Inl f \<Rightarrow> f = Terminate \<or> f = too_many_words
    | Inr (words, rb', p', rest, w') \<Rightarrow> words = ring_slice rb (length words)"
proof (cases "consume_packets bs p")
  case (Inl f)
  then show ?thesis using np.only_terminates [OF Inl] by (simp add: receive_def poll_def)
next
  case (Inr x)
  then obtain n p' rest where "consume_packets bs p = Inr (n, p', rest)" by (cases x) auto
  with receive_spec [OF assms this refl, of X w] receive_throws [OF this, of rb X w] show ?thesis
    by (cases "m_readable_words rb + n \<le> vector_max_size") auto
qed

text \<open>
  C14: every state an endpoint reaches from its constructor by configuring, receiving, resetting,
  register access, sending, pinging, turns of the polling thread and writes of the FPGA into the
  rings has the type of a live endpoint: both read indices inside their rings, the unacknowledged
  words within the limit, the sizes of 1 and 2048 pages unchanged, rings and poller on the port of
  the RMA connection, the polling thread running. In such a state a receive on either ring never
  reads outside the allocation: it returns a slice of the ring, or the polling thread has ended the
  process, or there are more words than a vector can hold.
\<close>

theorem endpoint_states_well_typed:
  assumes "endpoint_state X (ep, w)"
  shows "endpoint_wf ep
    \<and> (case receive X bs (trace_ring_buffer ep) (poller ep) w of Inl f \<Rightarrow> f = Terminate \<or> f = too_many_words
       | Inr (words, rb, p, rest, w') \<Rightarrow> words = ring_slice (trace_ring_buffer ep) (length words))
    \<and> (case receive X bs (hicann_ring_buffer ep) (poller ep) w of Inl f \<Rightarrow> f = Terminate \<or> f = too_many_words
       | Inr (words, rb, p, rest, w') \<Rightarrow> words = ring_slice (hicann_ring_buffer ep) (length words))"
proof -
  from endpoint_state_wf [OF assms] have wf: "endpoint_wf ep" by simp
  then have "ring_wf (trace_ring_buffer ep)" "ring_wf (hicann_ring_buffer ep)"
    by (simp_all add: endpoint_wf_def ring_of_def)
  from this [THEN receive_typed] wf show ?thesis by blast
qed

theorem endpoint_states_well_typed_witness:
  "\<exists>w. endpoint_state queue_ext (ep_session\<lparr>trace_ring_buffer := reset (trace_ring_buffer ep_session)\<rparr>, w)
    \<and> endpoint_wf (ep_session\<lparr>trace_ring_buffer := reset (trace_ring_buffer ep_session)\<rparr>)"
proof -
  let ?ep = "ep_session\<lparr>trace_ring_buffer := reset (trace_ring_buffer ep_session)\<rparr>"
  from session_starts obtain w1 where new: "Endpoint_new queue_ext (\<lambda>i. []) (\<lambda>i. []) (\<lambda>_. 0) (\<lambda>_. 0) 2 one_pending
     = Some (Inr ep_session, (NotificationPoller_new 7, w1))" by blast
  have "endpoint_state queue_ext (?ep, w1)"
    by (rule endpoint_state.step [OF endpoint_state.built [OF new] endpoint_step.reset_trace])
  with endpoint_states_well_typed [OF this, of "[]"] show ?thesis by blast
qed

end
