(* ===== verification/Node_Ids.thy ===== *)
theory Node_Ids
  imports Exceptions
begin

text \<open>
  \<^verbatim>\<open>src/nhtl-extoll/get_node_ids.cpp\<close>: the nodes of the network as \<^verbatim>\<open>emp-ctrl\<close> lists them, and
  which of them are running FPGAs. The two child processes and the environment are parameters:
  \<open>run command\<close> is what the command prints, or \<^term>\<open>None\<close> when starting it throws (the exception
  is caught and reported), and \<open>env name\<close> is \<^verbatim>\<open>getenv\<close>. The pipe to a child is an \<^verbatim>\<open>ipstream\<close> that is
  constructed before the \<^verbatim>\<open>try\<close> block; \<open>pipe who\<close> is the exception its constructor throws, if it throws,
  where \<open>who\<close> is \<^term>\<open>None\<close> for the listing and the node for a check.
\<close>

subsection \<open>Reading lines and numbers\<close>

abbreviation newline :: char where
  "newline \<equiv> CHR 0x0A"

text \<open>\<^verbatim>\<open>std::getline\<close>: fails only when nothing is left.\<close>

fun getline :: "string \<Rightarrow> (string \<times> string) option" where
  "getline [] = None"
| "getline (c # cs) =
     Some (takeWhile (\<lambda>x. x \<noteq> newline) (c # cs), drop 1 (dropWhile (\<lambda>x. x \<noteq> newline) (c # cs)))"

lemma getline_shorter: "getline s = Some (l, rest) \<Longrightarrow> length rest < length s"
proof (cases s)
  case (Cons c cs)
  assume "getline s = Some (l, rest)"
  with Cons have "length rest = length (dropWhile (\<lambda>x. x \<noteq> newline) (c # cs)) - 1" by auto
  moreover have "length (dropWhile (\<lambda>x. x \<noteq> newline) (c # cs)) \<le> length s"
    using Cons length_dropWhile_le by blast
  ultimately show ?thesis using Cons by (simp add: length_dropWhile_le)
qed simp

text \<open>\<^verbatim>\<open>while (pipe_stream && std::getline(pipe_stream, line) && !line.empty())\<close>.\<close>

function read_lines :: "string \<Rightarrow> string list" where
  "read_lines s =
     (case getline s of
        None \<Rightarrow> []
      | Some (l, rest) \<Rightarrow> if l = [] then [] else l # read_lines rest)"
  by pat_completeness auto
termination
  by (relation "measure length") (auto dest: getline_shorter)

declare read_lines.simps [simp del]

definition is_space :: "char \<Rightarrow> bool" where
  "is_space c \<longleftrightarrow> c = CHR '' '' \<or> (9 \<le> (of_char c :: nat) \<and> (of_char c :: nat) \<le> 13)"

definition is_digit :: "char \<Rightarrow> bool" where
  "is_digit c \<longleftrightarrow> 48 \<le> (of_char c :: nat) \<and> (of_char c :: nat) \<le> 57"

definition digits_value :: "string \<Rightarrow> nat" where
  "digits_value ds = foldl (\<lambda>n c. n * 10 + (of_char c - 48)) 0 ds"

text \<open>\<^verbatim>\<open>std::stoi\<close>: white space, a sign, at least one digit; what follows is ignored.\<close>

definition stoi :: "string \<Rightarrow> failure + int" where
  "stoi s =
     (let s1 = dropWhile is_space s;
          (neg, s2) = (case s1 of [] \<Rightarrow> (False, []) | c # cs \<Rightarrow>
             if c = CHR ''-'' then (True, cs) else if c = CHR ''+'' then (False, cs) else (False, s1));
          ds = takeWhile is_digit s2;
          v = (if neg then - int (digits_value ds) else int (digits_value ds))
      in if ds = [] then Inl (Throw (invalid_argument ''stoi''))
         else if v < - 0x80000000 \<or> 0x7fffffff < v then Inl (Throw (out_of_range ''stoi''))
         else Inr v)"

text \<open>\<^verbatim>\<open>std::to_string\<close> of a number that is not negative.\<close>

fun to_string :: "nat \<Rightarrow> string" where
  "to_string n = (if n < 10 then [char_of (48 + n)] else to_string (n div 10) @ [char_of (48 + n mod 10)])"

declare to_string.simps [simp del]

subsection \<open>The nodes\<close>

text \<open>\<^verbatim>\<open>std::string::find_first_of\<close> of one character and \<^verbatim>\<open>substr\<close>; \<^verbatim>\<open>npos\<close> is \<^term>\<open>None\<close>.\<close>

definition find_first_of :: "string \<Rightarrow> char \<Rightarrow> nat \<Rightarrow> nat option" where
  "find_first_of s c pos =
     (let k = pos + length (takeWhile (\<lambda>x. x \<noteq> c) (drop pos s)) in if k < length s then Some k else None)"

definition substr :: "string \<Rightarrow> nat \<Rightarrow> nat \<Rightarrow> failure + string" where
  "substr s pos n =
     (if length s < pos then Inl (Throw (out_of_range ''basic_string::substr'')) else Inr (take n (drop pos s)))"

lemma find_first_of_Some:
  "find_first_of s c pos = Some k \<Longrightarrow>
   pos \<le> k \<and> k < length s \<and> s ! k = c \<and> takeWhile (\<lambda>x. x \<noteq> c) (drop pos s) = take (k - pos) (drop pos s)
   \<and> dropWhile (\<lambda>x. x \<noteq> c) (drop pos s) = drop k s"
  using nth_length_takeWhile [of "\<lambda>x. x \<noteq> c" "drop pos s"]
  by (auto simp: find_first_of_def Let_def dropWhile_eq_drop [of _ "drop pos s"] add.commute
      takeWhile_eq_take [of _ "drop pos s", symmetric] split: if_splits)

lemma find_first_of_None:
  "find_first_of s c pos = None \<Longrightarrow> c \<notin> set (drop pos s)"
proof -
  assume "find_first_of s c pos = None"
  then have "length s \<le> pos + length (takeWhile (\<lambda>x. x \<noteq> c) (drop pos s))"
    by (simp add: find_first_of_def Let_def split: if_splits)
  then have "takeWhile (\<lambda>x. x \<noteq> c) (drop pos s) = drop pos s"
    by (subst takeWhile_eq_take) simp
  then show ?thesis by (metis (mono_tags) set_takeWhileD)
qed

text \<open>
  The scan: from a \<^verbatim>\<open>[\<close> to the next \<^verbatim>\<open>|\<close> lies a number, a node id after conversion to 16 bits.
  The scan stops without a \<^verbatim>\<open>[\<close> and without a \<^verbatim>\<open>|\<close> behind it.
\<close>

function scan_loop :: "string \<Rightarrow> nat option \<Rightarrow> u16 list \<Rightarrow> failure + u16 list" where
  "scan_loop listing None nodes = Inr nodes"
| "scan_loop listing (Some pos) nodes =
     (case find_first_of listing (CHR ''|'') pos of
        None \<Rightarrow> Inr nodes
      | Some sep \<Rightarrow>
          (case substr listing (pos + 1) (sep - pos - 1) of
             Inl f \<Rightarrow> Inl f
           | Inr field \<Rightarrow>
               (case stoi field of
                  Inl f \<Rightarrow> Inl f
                | Inr n \<Rightarrow> scan_loop listing (find_first_of listing (CHR ''['') sep) (nodes @ [word_of_int n]))))"
  by pat_completeness auto
termination
proof (relation "measure (\<lambda>(listing, pos, nodes). case pos of None \<Rightarrow> 0 | Some k \<Rightarrow> Suc (length listing - k))")
  fix listing :: string and pos sep :: nat and nodes nodes' :: "u16 list"
  assume sep: "find_first_of listing (CHR ''|'') pos = Some sep"
  show "((listing, find_first_of listing (CHR ''['') sep, nodes'), (listing, Some pos, nodes))
      \<in> measure (\<lambda>(listing, pos, nodes). case pos of None \<Rightarrow> 0 | Some k \<Rightarrow> Suc (length listing - k))"
  proof (cases "find_first_of listing (CHR ''['') sep")
    case (Some k)
    from find_first_of_Some [OF sep] find_first_of_Some [OF this] have "pos < k" "k < length listing"
      by (auto simp: order_le_less)
    with Some show ?thesis by simp
  qed simp
qed simp

declare scan_loop.simps [simp del]

text \<open>The same scan by recursion on what is left of the text.\<close>

function scan_nodes :: "string \<Rightarrow> failure + u16 list" where
  "scan_nodes s =
     (case dropWhile (\<lambda>x. x \<noteq> CHR ''['') s of
        [] \<Rightarrow> Inr []
      | _ # rest \<Rightarrow>
          if CHR ''|'' \<notin> set rest then Inr []
          else (case stoi (takeWhile (\<lambda>x. x \<noteq> CHR ''|'') rest) of
                  Inl f \<Rightarrow> Inl f
                | Inr n \<Rightarrow> (case scan_nodes (dropWhile (\<lambda>x. x \<noteq> CHR ''|'') rest) of
                              Inl f \<Rightarrow> Inl f
                            | Inr ns \<Rightarrow> Inr (word_of_int n # ns))))"
  by pat_completeness auto
termination
proof (relation "measure length")
  fix s c and rest :: string
  assume "dropWhile (\<lambda>x. x \<noteq> CHR ''['') s = c # rest"
  then have "length (c # rest) \<le> length s" by (metis length_dropWhile_le)
  then show "(dropWhile (\<lambda>x. x \<noteq> CHR ''|'') rest, s) \<in> measure length"
    using length_dropWhile_le [of "\<lambda>x. x \<noteq> CHR ''|''" rest] by simp
qed simp

declare scan_nodes.simps [simp del]

definition command_lines :: "(string \<Rightarrow> string option) \<Rightarrow> string \<Rightarrow> string list" where
  "command_lines run command = (case run command of None \<Rightarrow> [] | Some out \<Rightarrow> read_lines out)"

type_synonym pipes = "u16 option \<Rightarrow> exn option"

definition get_all_node_ids :: "pipes \<Rightarrow> (string \<Rightarrow> string option) \<Rightarrow> failure + u16 list" where
  "get_all_node_ids pipe run =
     (case pipe None of
        Some e \<Rightarrow> Inl (Throw e)
      | None \<Rightarrow>
          (let listing = concat (command_lines run ''emp-ctrl network listnodes'')
           in scan_loop listing (find_first_of listing (CHR ''['') 0) []))"

subsection \<open>The FPGAs among them\<close>

definition link_table :: "(u16 \<times> nat) list" where
  "link_table = [(1, 1), (2, 5), (4, 0), (5, 3)]"

text \<open>\<^verbatim>\<open>line.end()[-2]\<close> of a line with one character lies before its beginning.\<close>

fun any_ready :: "string list \<Rightarrow> failure + bool" where
  "any_ready [] = Inr False"
| "any_ready (line # lines) =
     (if length line < 2 then Inl Undefined
      else if line ! (length line - 2) = CHR ''1'' then Inr True
      else any_ready lines)"

definition status_command :: "string \<Rightarrow> nat \<Rightarrow> string" where
  "status_command sysfs link =
     ''grep -h ready '' @ (sysfs @ (''/extoll_rf_nw_lp_top_rf_lp'' @ to_string link @ ''_status''))"

text \<open>A \<^verbatim>\<open>std::string\<close> initialised with a null pointer is undefined.\<close>

definition check_is_fpga ::
  "pipes \<Rightarrow> (string \<Rightarrow> string option) \<Rightarrow> (string \<Rightarrow> string option) \<Rightarrow> u16 \<Rightarrow> failure + bool" where
  "check_is_fpga pipe run env node_id =
     (case pipe (Some node_id) of
        Some e \<Rightarrow> Inl (Throw e)
      | None \<Rightarrow>
          (case map_of link_table node_id of
             None \<Rightarrow> Inr False
           | Some link \<Rightarrow>
               (case env ''EXTOLL_R2_SYSFS'' of
                  None \<Rightarrow> Inl Undefined
                | Some sysfs \<Rightarrow> any_ready (command_lines run (status_command sysfs link)))))"

text \<open>\<^verbatim>\<open>std::erase_if\<close>: the elements that are kept stay in order.\<close>

fun keep_fpgas ::
  "pipes \<Rightarrow> (string \<Rightarrow> string option) \<Rightarrow> (string \<Rightarrow> string option) \<Rightarrow> u16 list \<Rightarrow> failure + u16 list" where
  "keep_fpgas pipe run env [] = Inr []"
| "keep_fpgas pipe run env (n # ns) =
     (case check_is_fpga pipe run env n of
        Inl f \<Rightarrow> Inl f
      | Inr b \<Rightarrow> (case keep_fpgas pipe run env ns of
                    Inl f \<Rightarrow> Inl f
                  | Inr ms \<Rightarrow> Inr (if b then n # ms else ms)))"

definition get_fpga_node_ids ::
  "pipes \<Rightarrow> (string \<Rightarrow> string option) \<Rightarrow> (string \<Rightarrow> string option) \<Rightarrow> failure + u16 list" where
  "get_fpga_node_ids pipe run env =
     (case get_all_node_ids pipe run of Inl f \<Rightarrow> Inl f | Inr ns \<Rightarrow> keep_fpgas pipe run env ns)"

definition get_fpga_node_id ::
  "pipes \<Rightarrow> (string \<Rightarrow> string option) \<Rightarrow> (string \<Rightarrow> string option) \<Rightarrow> failure + u16" where
  "get_fpga_node_id pipe run env =
     (case get_fpga_node_ids pipe run env of
        Inl f \<Rightarrow> Inl f
      | Inr [] \<Rightarrow> Inl (Throw (runtime_error ''Extoll Error: No FPGA node found in environment.''))
      | Inr (n # _) \<Rightarrow> Inr n)"

subsection \<open>Printed numbers are read back\<close>

lemma digit_char: "d < 10 \<Longrightarrow> of_char (char_of (48 + d :: nat) :: char) = 48 + d"
  by (simp add: of_char_of)

lemma digits_value_snoc: "digits_value (ds @ [c]) = digits_value ds * 10 + (of_char c - 48)"
  by (simp add: digits_value_def)

lemma to_string_digits:
  "(\<forall>c \<in> set (to_string n). is_digit c) \<and> to_string n \<noteq> [] \<and> digits_value (to_string n) = n"
proof (induction n rule: to_string.induct)
  case (1 n)
  show ?case
  proof (cases "n < 10")
    case True
    then have "of_char (char_of (48 + n) :: char) = 48 + n" by (rule digit_char)
    with True show ?thesis
      by (subst (1 2 3) to_string.simps) (simp add: is_digit_def digits_value_def del: of_char_of)
  next
    case False
    have "of_char (char_of (48 + n mod 10) :: char) = 48 + n mod 10" by (rule digit_char) simp
    with 1 False show ?thesis
      by (subst (1 2 3) to_string.simps) (simp add: is_digit_def digits_value_snoc del: of_char_of)
  qed
qed

lemma digit_not_special:
  "is_digit c \<Longrightarrow> \<not> is_space c \<and> c \<noteq> CHR ''-'' \<and> c \<noteq> CHR ''+'' \<and> c \<noteq> CHR ''['' \<and> c \<noteq> CHR ''|'' \<and> c \<noteq> newline"
  by (auto simp: is_digit_def is_space_def)

lemma stoi_to_string:
  assumes "n < 0x80000000"
  shows "stoi (to_string n) = Inr (int n)"
proof -
  from to_string_digits [of n] obtain c cs where s: "to_string n = c # cs" "is_digit c"
    "\<forall>x \<in> set (c # cs). is_digit x" "digits_value (c # cs) = n" by (cases "to_string n") auto
  with assms digit_not_special [OF s(2)] show ?thesis
    by (simp add: stoi_def Let_def takeWhile_eq_all_conv [THEN iffD2])
qed

subsection \<open>Listings\<close>

text \<open>A line of the listing: text, \<^verbatim>\<open>[\<close>, the node id, \<^verbatim>\<open>|\<close>, text.\<close>

type_synonym listed = "string \<times> u16 \<times> string"

definition print_line :: "listed \<Rightarrow> string" where
  "print_line = (\<lambda>(before, n, behind). before @ ''['' @ to_string (unat n) @ ''|'' @ behind)"

definition plain :: "string \<Rightarrow> bool" where
  "plain s \<longleftrightarrow> CHR ''['' \<notin> set s \<and> newline \<notin> set s"

definition print_listing :: "listed list \<Rightarrow> string" where
  "print_listing ls = concat (map (\<lambda>l. print_line l @ [newline]) ls)"

lemma split_at:
  "x \<notin> set l \<Longrightarrow> takeWhile (\<lambda>y. y \<noteq> x) (l @ x # r) = l \<and> dropWhile (\<lambda>y. y \<noteq> x) (l @ x # r) = x # r"
  by (induction l) auto

lemma read_lines_line:
  assumes "l \<noteq> []" and "newline \<notin> set l"
  shows "read_lines (l @ newline # rest) = l # read_lines rest"
proof -
  from assms obtain c cs where l: "l = c # cs" "c \<noteq> newline" by (cases l) auto
  from assms(2) have "takeWhile (\<lambda>x. x \<noteq> newline) (l @ newline # rest) = l"
    "dropWhile (\<lambda>x. x \<noteq> newline) (l @ newline # rest) = newline # rest"
    by (simp_all add: split_at)
  with l show ?thesis by (subst read_lines.simps) simp
qed

lemma read_lines_end: "tail = [] \<or> hd tail = newline \<Longrightarrow> read_lines tail = []"
  by (subst read_lines.simps) (cases tail; simp)

lemma newline_not_printed:
  "plain before \<Longrightarrow> plain behind \<Longrightarrow> newline \<notin> set (print_line (before, n, behind))"
  using to_string_digits [of "unat n"] digit_not_special
  by (auto simp: print_line_def plain_def)

lemma read_lines_listing:
  assumes "\<forall>(before, n, behind) \<in> set ls. plain before \<and> plain behind" and "tail = [] \<or> hd tail = newline"
  shows "read_lines (print_listing ls @ tail) = map print_line ls"
  using assms(1)
proof (induction ls)
  case Nil
  then show ?case by (simp add: print_listing_def read_lines_end [OF assms(2)])
next
  case (Cons l ls)
  obtain before n behind where l: "l = (before, n, behind)" by (cases l) auto
  from Cons.prems have "newline \<notin> set (print_line l)" unfolding l by (auto intro: newline_not_printed [THEN notE])
  moreover have "print_line l \<noteq> []" by (simp add: l print_line_def)
  ultimately have "read_lines (print_line l @ newline # print_listing ls @ tail)
      = print_line l # read_lines (print_listing ls @ tail)" by (intro read_lines_line)
  with Cons show ?case by (simp add: print_listing_def)
qed

lemma scan_skip:
  "CHR ''['' \<notin> set x \<Longrightarrow> scan_nodes (x @ s) = scan_nodes s"
  by (subst (1 2) scan_nodes.simps) (simp add: dropWhile_append)

lemma scan_entry:
  "scan_nodes (''['' @ to_string (unat n) @ ''|'' @ rest)
   = (case scan_nodes rest of Inl f \<Rightarrow> Inl f | Inr ns \<Rightarrow> Inr (n # ns))" for n :: u16
proof -
  let ?d = "to_string (unat n)"
  have "CHR ''|'' \<notin> set ?d" using to_string_digits [of "unat n"] digit_not_special by blast
  then have t: "takeWhile (\<lambda>x. x \<noteq> CHR ''|'') (?d @ CHR ''|'' # rest) = ?d"
    "dropWhile (\<lambda>x. x \<noteq> CHR ''|'') (?d @ CHR ''|'' # rest) = CHR ''|'' # rest"
    by (simp_all add: split_at)
  have "unat n < 65536" using unsigned_less [of n] by simp
  then have "stoi ?d = Inr (int (unat n))" by (intro stoi_to_string) simp
  with t show ?thesis
    using scan_skip [of "''|''" rest] by (subst scan_nodes.simps) (simp split: sum.splits)
qed

lemma scan_listing:
  assumes "\<forall>(before, n, behind) \<in> set ls. plain before \<and> plain behind"
  shows "scan_nodes (concat (map print_line ls)) = Inr (map (fst \<circ> snd) ls)"
  using assms
proof (induction ls)
  case Nil
  show ?case by (subst scan_nodes.simps) simp
next
  case (Cons l ls)
  obtain before n behind where l: "l = (before, n, behind)" by (cases l) auto
  from Cons.prems have "CHR ''['' \<notin> set before" "CHR ''['' \<notin> set behind"
    by (auto simp: l plain_def)
  then show ?case
    using Cons scan_skip [of before] scan_entry [of n "behind @ concat (map print_line ls)"] scan_skip [of behind]
    by (simp add: l print_line_def)
qed

lemma scan_nodes_plain: "CHR ''['' \<notin> set s \<Longrightarrow> scan_nodes s = Inr []"
  using scan_skip [of s "[]"] by (simp add: scan_nodes.simps [of "[]"])

lemma scan_nodes_bracket:
  "scan_nodes (CHR ''['' # rest) =
     (if CHR ''|'' \<notin> set rest then Inr []
      else (case stoi (takeWhile (\<lambda>x. x \<noteq> CHR ''|'') rest) of
              Inl f \<Rightarrow> Inl f
            | Inr n \<Rightarrow> (case scan_nodes (dropWhile (\<lambda>x. x \<noteq> CHR ''|'') rest) of
                          Inl f \<Rightarrow> Inl f
                        | Inr ns \<Rightarrow> Inr (word_of_int n # ns))))"
  by (subst scan_nodes.simps) simp

lemma scan_nodes_next:
  "scan_nodes (drop sep listing)
   = (case find_first_of listing (CHR ''['') sep of None \<Rightarrow> Inr [] | Some k \<Rightarrow> scan_nodes (drop k listing))"
proof (cases "find_first_of listing (CHR ''['') sep")
  case None
  from scan_nodes_plain [OF find_first_of_None [OF None]] None show ?thesis by simp
next
  case (Some k)
  from find_first_of_Some [OF Some] have k: "dropWhile (\<lambda>x. x \<noteq> CHR ''['') (drop sep listing) = drop k listing"
    "k < length listing" "listing ! k = CHR ''[''" by simp_all
  then have "dropWhile (\<lambda>x. x \<noteq> CHR ''['') (drop k listing) = drop k listing"
    by (simp add: Cons_nth_drop_Suc [symmetric])
  with Some k(1) show ?thesis
    by (simp add: scan_nodes.simps [of "drop sep listing"] scan_nodes.simps [of "drop k listing"])
qed

lemma scan_loop_suffix:
  "(case pos of None \<Rightarrow> True | Some k \<Rightarrow> k < length listing \<and> listing ! k = CHR ''['') \<Longrightarrow>
   scan_loop listing pos nodes = (case pos of None \<Rightarrow> Inr nodes
     | Some k \<Rightarrow> (case scan_nodes (drop k listing) of Inl f \<Rightarrow> Inl f | Inr ns \<Rightarrow> Inr (nodes @ ns)))"
proof (induction listing pos nodes rule: scan_loop.induct)
  case (1 listing nodes)
  show ?case by (simp add: scan_loop.simps)
next
  case (2 listing pos nodes)
  let ?sep = "find_first_of listing (CHR ''|'') pos"
  from "2.prems" have at: "drop pos listing = CHR ''['' # drop (Suc pos) listing"
    by (simp add: Cons_nth_drop_Suc [symmetric])
  show ?case
  proof (cases ?sep)
    case None
    then have "CHR ''|'' \<notin> set (drop (Suc pos) listing)"
      using find_first_of_None [OF None] at by simp
    with None show ?thesis
      by (simp add: scan_loop.simps scan_nodes_bracket at)
  next
    case (Some sep)
    note s = find_first_of_Some [OF Some]
    have "CHR ''|'' \<in> set (drop pos listing)"
      using s by (auto simp: in_set_conv_nth intro!: exI [of _ "sep - pos"])
    then have bar: "CHR ''|'' \<in> set (drop (Suc pos) listing)" by (simp add: at)
    have pos: "pos < sep" using s "2.prems" by (auto simp: order_le_less)
    have field: "takeWhile (\<lambda>x. x \<noteq> CHR ''|'') (drop (Suc pos) listing) = take (sep - pos - 1) (drop (Suc pos) listing)"
      "dropWhile (\<lambda>x. x \<noteq> CHR ''|'') (drop (Suc pos) listing) = drop sep listing"
      using s pos unfolding at by (cases "sep - pos"; simp)+
    have next_at: "case find_first_of listing (CHR ''['') sep of None \<Rightarrow> True | Some k \<Rightarrow> k < length listing \<and> listing ! k = CHR ''[''"
      by (auto split: option.split dest: find_first_of_Some)
    have "substr listing (pos + 1) (sep - pos - 1) = Inr (take (sep - pos - 1) (drop (Suc pos) listing))"
      using s pos by (simp add: substr_def)
    with Some "2.IH" [OF Some _ _ next_at] bar field show ?thesis
      by (auto simp: scan_loop.simps(2) scan_nodes_bracket at scan_nodes_next [of sep listing]
          split: sum.splits option.splits)
  qed
qed

text \<open>The scan by positions is the scan by what is left.\<close>

lemma scan_loop_scan_nodes: "scan_loop s (find_first_of s (CHR ''['') 0) [] = scan_nodes s"
proof (cases "find_first_of s (CHR ''['') 0")
  case None
  from find_first_of_None [OF None] have "scan_nodes s = Inr []"
    by (intro scan_nodes_plain) simp
  with None show ?thesis by (simp add: scan_loop.simps)
next
  case (Some k)
  note k = find_first_of_Some [OF Some]
  then have "dropWhile (\<lambda>x. x \<noteq> CHR ''['') (drop k s) = dropWhile (\<lambda>x. x \<noteq> CHR ''['') s"
    by (simp add: Cons_nth_drop_Suc [symmetric])
  then have "scan_nodes (drop k s) = scan_nodes s"
    by (simp add: scan_nodes.simps [of "drop k s"] scan_nodes.simps [of s])
  with Some k scan_loop_suffix [where pos = "Some k" and listing = s and nodes = "[]"] show ?thesis
    by (simp split: sum.splits)
qed

lemma get_all_node_ids_eq:
  "get_all_node_ids pipe run = (case pipe None of
       Some e \<Rightarrow> Inl (Throw e)
     | None \<Rightarrow> scan_nodes (concat (command_lines run ''emp-ctrl network listnodes'')))"
  by (simp add: get_all_node_ids_def scan_loop_scan_nodes split: option.splits)

text \<open>What it means that the link of a node is up.\<close>

definition link_up :: "(string \<Rightarrow> string option) \<Rightarrow> string \<Rightarrow> u16 \<Rightarrow> bool" where
  "link_up run sysfs n \<longleftrightarrow> (case map_of link_table n of
       None \<Rightarrow> False
     | Some link \<Rightarrow> list_ex (\<lambda>line. line ! (length line - 2) = CHR ''1'')
         (command_lines run (status_command sysfs link)))"

lemma any_ready_eq:
  "list_all (\<lambda>line. 2 \<le> length line) lines \<Longrightarrow>
   any_ready lines = Inr (list_ex (\<lambda>line. line ! (length line - 2) = CHR ''1'') lines)"
  by (induction lines) auto

lemma any_ready_not_throw: "any_ready lines = Inl f \<Longrightarrow> f = Undefined"
  by (induction lines) (auto split: if_splits)

lemma keep_fpgas_filter:
  assumes "\<And>n. check_is_fpga pipe run env n = Inr (P n)"
  shows "keep_fpgas pipe run env ns = Inr (filter P ns)"
  by (induction ns) (simp_all add: assms)

lemma listing_read:
  assumes "pipe None = None" and "run ''emp-ctrl network listnodes'' = Some (print_listing ls @ tail)"
    and "\<forall>(before, n, behind) \<in> set ls. plain before \<and> plain behind"
    and "tail = [] \<or> hd tail = newline"
  shows "get_all_node_ids pipe run = Inr (map (\<lambda>(before, n, behind). n) ls)"
proof -
  have "(\<lambda>(before, n, behind). n) = (fst \<circ> snd :: listed \<Rightarrow> u16)" by (auto simp: fun_eq_iff)
  then show ?thesis
    using scan_listing [OF assms(3)] read_lines_listing [OF assms(3,4)] assms(1,2)
    by (simp add: get_all_node_ids_eq command_lines_def)
qed

text \<open>A field that is no number: the exception of \<^verbatim>\<open>std::stoi\<close> is outside the \<^verbatim>\<open>try\<close> block.\<close>

lemma get_all_node_ids_escapes:
  "get_all_node_ids (\<lambda>_. None) (\<lambda>_. Some ''[node|'') = Inl (Throw (invalid_argument ''stoi''))"
  by (simp add: get_all_node_ids_eq command_lines_def read_lines.simps scan_nodes.simps stoi_def
      is_space_def is_digit_def)

text \<open>Without the environment variable the check of a known node is undefined.\<close>

lemma check_is_fpga_unset:
  "check_is_fpga (\<lambda>_. None) run (\<lambda>_. None) n = (if n \<in> {1, 2, 4, 5} then Inl Undefined else Inr False)"
  by (auto simp: check_is_fpga_def link_table_def)

text \<open>Two nodes, both of which report ready, for the witness; node 7 is in no table.\<close>

definition run7 :: "string \<Rightarrow> string option" where
  "run7 c = (if c = ''emp-ctrl network listnodes'' then Some (print_listing [([], 7, []), ([], 2, [])])
             else Some ''ready 1)'')"

subsection \<open>Properties of node discovery\<close>

text \<open>
  C31: the loop over \<^verbatim>\<open>find_first_of\<close> and \<^verbatim>\<open>substr\<close> with positions in the whole listing computes the
  same as the scanner that consumes the text and is defined by recursion on what is left of it, for
  every output of \<^verbatim>\<open>emp-ctrl\<close>: the same node ids, the same early ends and the same exceptions. When
  there is no pipe to the child, its exception is all that comes out.
\<close>

theorem get_all_node_ids_equals_scanner:
  "get_all_node_ids pipe run = (case pipe None of
       Some e \<Rightarrow> Inl (Throw e)
     | None \<Rightarrow> scan_nodes (concat (command_lines run ''emp-ctrl network listnodes'')))"
  by (rule get_all_node_ids_eq)

text \<open>
  C32: whatever plain text surrounds them, the node ids that the listing prints between \<^verbatim>\<open>[\<close> and
  \<^verbatim>\<open>|\<close> are the ones returned, all of them and in order; what follows an empty line is not read.
\<close>

theorem get_all_node_ids_reads_listing:
  assumes "pipe None = None" and "run ''emp-ctrl network listnodes'' = Some (print_listing ls @ tail)"
    and "\<forall>(before, n, behind) \<in> set ls. plain before \<and> plain behind"
    and "tail = [] \<or> hd tail = newline"
  shows "get_all_node_ids pipe run = Inr (map (\<lambda>(before, n, behind). n) ls)"
  using assms by (rule listing_read)

theorem get_all_node_ids_reads_listing_witness:
  "get_all_node_ids (\<lambda>_. None) (\<lambda>c. Some (print_listing [(''Node '', 2, '' up''), ([], 65535, [])] @ newline # ''[9|''))
   = Inr [2, 65535]"
proof -
  have "plain ''Node ''" "plain '' up''" "plain []" by (simp_all add: plain_def)
  then show ?thesis
    using get_all_node_ids_reads_listing
      [of "\<lambda>_. None" "\<lambda>c. Some (print_listing [(''Node '', 2, '' up''), ([], 65535, [])] @ newline # ''[9|'')"
          "[(''Node '', 2, '' up''), ([], 65535, [])]" "newline # ''[9|''"]
    by simp
qed

text \<open>
  C33: with pipes to the children, the environment variable set and status lines of at least two characters the FPGAs
  returned are exactly the listed nodes that are in the table of links and whose link reports
  ready, in the order of the listing; a single FPGA is the first of them, and without one the
  call throws.
\<close>

theorem get_fpga_node_id_first_ready:
  assumes "get_all_node_ids pipe run = Inr ns" and "\<And>n. pipe (Some n) = None"
    and "env ''EXTOLL_R2_SYSFS'' = Some sysfs"
    and "\<And>link. list_all (\<lambda>line. 2 \<le> length line) (command_lines run (status_command sysfs link))"
  shows "get_fpga_node_ids pipe run env = Inr (filter (link_up run sysfs) ns)
    \<and> get_fpga_node_id pipe run env = (case filter (link_up run sysfs) ns of
         [] \<Rightarrow> Inl (Throw (runtime_error ''Extoll Error: No FPGA node found in environment.''))
       | n # _ \<Rightarrow> Inr n)"
proof -
  have "check_is_fpga pipe run env n = Inr (link_up run sysfs n)" for n
    using any_ready_eq [OF assms(4)] assms(2,3)
    by (auto simp: check_is_fpga_def link_up_def split: option.splits)
  then show ?thesis
    using keep_fpgas_filter [of pipe run env "link_up run sysfs" ns] assms(1)
    by (simp add: get_fpga_node_id_def get_fpga_node_ids_def split: list.splits)
qed

theorem get_fpga_node_id_first_ready_witness:
  "get_fpga_node_ids (\<lambda>_. None) run7 (\<lambda>_. Some ''/sys'') = Inr [2] \<and> get_fpga_node_id (\<lambda>_. None) run7 (\<lambda>_. Some ''/sys'') = Inr 2"
proof -
  have all: "get_all_node_ids (\<lambda>_. None) run7 = Inr [7, 2]"
    using listing_read [of "\<lambda>_. None" run7 "[([], 7, []), ([], 2, [])]" "[]"] by (simp add: run7_def plain_def)
  have lines: "command_lines run7 (status_command s link) = [''ready 1)'']" for s link
    by (simp add: command_lines_def run7_def status_command_def read_lines.simps)
  show ?thesis
    using get_fpga_node_id_first_ready [OF all refl, of "\<lambda>_. Some ''/sys''" "''/sys''"]
    by (simp add: lines link_up_def link_table_def)
qed

end
