(* ===== verification/Client_Use.thy ===== *)
theory Client_Use
  imports Endpoint_States Node_Ids
begin

text \<open>
  The library as its clients and its hardware test (\<^verbatim>\<open>tests/hw/nhtl-extoll/test-check-fpga.cpp\<close>) use
  it: which exceptions reach a handler of \<^verbatim>\<open>std::runtime_error\<close>, what a configured FPGA answers
  when the test reads a register back, what goes out when the send buffer is filled and sent, and
  what the defaulted move constructors do to ownership.
\<close>

subsection \<open>Exceptions\<close>

definition rra_error :: "failure \<Rightarrow> bool" where
  "rra_error f \<longleftrightarrow> (\<exists>e. f = Throw e \<and> catches Class_RraError e)"

lemma RraError_runtime_error: "catches Class_RraError e \<Longrightarrow> catches Std_runtime_error e"
  by (cases e) (simp_all add: catches_RraError catches_runtime_error)

lemma rra_read_error: "rra_read X ep a w = (Inl f, w') \<Longrightarrow> rra_error f"
  by (auto simp: rra_error_def catches_RraError dest!: rra_read_log)

lemma rra_write_error: "rra_write X ep a v w = (Inl f, w') \<Longrightarrow> rra_error f"
  by (auto simp: rra_error_def catches_RraError dest!: rra.fails)

lemma rma_send_error: "rma_send X ep n w = (Inl f, w') \<Longrightarrow> rra_error f"
  by (auto simp: rra_error_def catches_RraError rma_send_def throw_on_error_def split: if_splits)

lemma configure_with_error: "configure_fpga_with X config (ep, w) = (Inl f, (ep', w')) \<Longrightarrow> rra_error f"
  by (drule configure_fpga_outcome)
    (auto simp: config_outcome_def Let_def rra_error_def catches_RraError)

lemma configure_error: "configure_fpga X (ep, w) = (Inl f, (ep', w')) \<Longrightarrow> rra_error f"
  by (auto simp: configure_fpga_def rb_nla_def dest: configure_with_error)

lemma check_is_fpga_failure: "check_is_fpga pipe run env n = Inl f \<Longrightarrow> f = Undefined \<or> (\<exists>e who. f = Throw e \<and> pipe who = Some e)"
  by (auto simp: check_is_fpga_def split: option.splits dest: any_ready_not_throw)

lemma keep_fpgas_failure: "keep_fpgas pipe run env ns = Inl f \<Longrightarrow> f = Undefined \<or> (\<exists>e who. f = Throw e \<and> pipe who = Some e)"
  by (induction pipe run env ns rule: keep_fpgas.induct)
    (auto split: sum.splits dest: check_is_fpga_failure)

definition stoi_error :: "failure \<Rightarrow> bool" where
  "stoi_error f \<longleftrightarrow> f = Throw (invalid_argument ''stoi'') \<or> f = Throw (out_of_range ''stoi'')"

lemma stoi_failure: "stoi s = Inl f \<Longrightarrow> stoi_error f"
  by (auto simp: stoi_def stoi_error_def Let_def split: prod.splits if_splits)

lemma scan_nodes_failure: "scan_nodes s = Inl f \<Longrightarrow> stoi_error f"
proof (induction s rule: scan_nodes.induct)
  case (1 s)
  from 1(2) show ?case
    by (subst (asm) scan_nodes.simps)
      (auto split: list.splits if_splits sum.splits dest: stoi_failure 1(1))
qed

text \<open>
  C21: whatever the outside answers, every exception that leaves the construction, the configuration,
  a register access or a send of an endpoint is a \<^verbatim>\<open>std::runtime_error\<close>, and after construction an
  \<^verbatim>\<open>RraError\<close>: the handler of the hardware test, which catches \<^verbatim>\<open>std::runtime_error\<close>, catches all of
  them. The only other failure is that the process is terminated inside a destructor.
\<close>

theorem endpoint_exceptions:
  "(case Endpoint_new X ts hs tc hc n w of
      Some (Inl f, s) \<Rightarrow> f = Terminate \<or> (\<exists>e. f = Throw e \<and> catches Std_runtime_error e)
    | _ \<Rightarrow> True)
   \<and> (case configure_fpga X (ep, w) of
        (Inl f, s) \<Rightarrow> \<exists>e. f = Throw e \<and> catches Class_RraError e \<and> catches Std_runtime_error e
      | (Inr _, s) \<Rightarrow> True)
   \<and> (case rra_read X ep a w of
        (Inl f, w') \<Rightarrow> \<exists>e. f = Throw e \<and> catches Class_RraError e \<and> catches Std_runtime_error e
      | (Inr _, w') \<Rightarrow> True)
   \<and> (case rra_write X ep a v w of
        (Inl f, w') \<Rightarrow> \<exists>e. f = Throw e \<and> catches Class_RraError e \<and> catches Std_runtime_error e
      | (Inr _, w') \<Rightarrow> True)
   \<and> (case rma_send X ep qw w of
        (Inl f, w') \<Rightarrow> \<exists>e. f = Throw e \<and> catches Class_RraError e \<and> catches Std_runtime_error e
      | (Inr _, w') \<Rightarrow> True)"
proof -
  have "case Endpoint_new X ts hs tc hc n w of
      Some (Inl f, s) \<Rightarrow> f = Terminate \<or> (\<exists>e. f = Throw e \<and> catches Std_runtime_error e)
    | _ \<Rightarrow> True"
    by (auto simp: new_outcome_def outcome_from_def split: option.split sum.split prod.split
        dest!: Endpoint_new_outcome)
  moreover have "rra_error f \<Longrightarrow> \<exists>e. f = Throw e \<and> catches Class_RraError e \<and> catches Std_runtime_error e" for f
    by (auto simp: rra_error_def intro: RraError_runtime_error)
  ultimately show ?thesis
    using configure_error [of X ep w] rra_read_error [of X ep a w] rra_write_error [of X ep a v w]
      rma_send_error [of X ep qw w]
    by (auto split: prod.split sum.split)
qed

text \<open>
  C34: a failure of the search for an FPGA is one of four: no ready FPGA, the documented
  \<^verbatim>\<open>std::runtime_error\<close>; a listing with a field that is no number, in which case an exception of
  \<^verbatim>\<open>std::stoi\<close>, which is no \<^verbatim>\<open>std::runtime_error\<close>, escapes; the exception of a pipe that cannot be
  constructed, which escapes as well; or the undefined behaviour of an unset environment variable or
  a status line of one character. The first means that the list
  of FPGAs is empty.
\<close>

theorem discovery_failures:
  "case get_fpga_node_id pipe run env of
     Inr n \<Rightarrow> \<exists>ns. get_fpga_node_ids pipe run env = Inr (n # ns)
   | Inl f \<Rightarrow> f = Undefined
       \<or> f = Throw (runtime_error ''Extoll Error: No FPGA node found in environment.'')
           \<and> get_fpga_node_ids pipe run env = Inr []
       \<or> (\<exists>e. f = Throw e \<and> \<not> catches Std_runtime_error e \<and> get_all_node_ids pipe run = Inl f)
       \<or> (\<exists>e who. f = Throw e \<and> pipe who = Some e)"
proof -
  have "get_all_node_ids pipe run = Inl f \<Longrightarrow> stoi_error f \<or> (\<exists>e. f = Throw e \<and> pipe None = Some e)" for f
    unfolding get_all_node_ids_eq by (auto split: option.splits dest: scan_nodes_failure)
  moreover have "keep_fpgas pipe run env ns = Inl f \<Longrightarrow> f = Undefined \<or> (\<exists>e who. f = Throw e \<and> pipe who = Some e)"
    for ns f by (rule keep_fpgas_failure)
  ultimately show ?thesis
    by (fastforce simp: get_fpga_node_id_def get_fpga_node_ids_def stoi_error_def catches_runtime_error
        split: sum.split list.split)
qed

subsection \<open>Reading the configuration back\<close>

text \<open>A register is left by the last write to it.\<close>

lemma registers_after_one:
  "a \<notin> fst ` set post \<Longrightarrow>
   registers_after latch (pre @ (a, v) # post) R a = latch a (registers_after latch pre R a) v"
  using registers_after_other [of a post latch]
  by (simp add: registers_after_def latch_store_def)

lemma registers_after_distinct:
  assumes "distinct (map fst ws)" and "(a, v) \<in> set ws"
  shows "registers_after latch ws R a = latch a (R a) v"
proof -
  from assms(2) obtain pre post where ws: "ws = pre @ (a, v) # post" by (auto dest: split_list)
  with assms(1) have "a \<notin> fst ` set pre" "a \<notin> fst ` set post" by auto
  then show ?thesis by (simp add: ws registers_after_one registers_after_other del: registers_after_append)
qed

text \<open>The configuration writes every register at most once.\<close>

lemma planned_distinct: "distinct (map fst (planned_writes config @ [info_write node old]))"
  by (simp add: planned_writes_def config_writes_def ring_writes_def closure_write_def info_write_def)

lemma trace_registers_written:
  "registers_after latch (planned_writes config @ [info_write node old]) R 0x5000
   = latch 0x5000 (R 0x5000) (start_address (trace config))"
  "registers_after latch (planned_writes config @ [info_write node old]) R 0x5008
   = latch 0x5008 (R 0x5008) (ucast (capacity (trace config)))"
  by (rule registers_after_distinct [OF planned_distinct],
      simp add: planned_writes_def config_writes_def ring_writes_def)+

text \<open>
  C20: the assertion of the hardware test \<^verbatim>\<open>ConfigureFPGA\<close>. On an FPGA whose registers answer, with a
  network card that keeps giving the same network address for the trace ring, the default
  configuration succeeds, and the register \<^verbatim>\<open>TraceBufferStart\<close>, read back afterwards, holds what
  \<^verbatim>\<open>trace_ring_buffer.address(0)\<close> returns.
\<close>

theorem configured_trace_start_reads_address:
  assumes "register_fpga X ep regs latch rd_ok" and "rd_ok 0x8008" and "rd_ok 0x5000"
    and "\<And>old v. latch 0x5000 old v = v"
    and "\<And>e m. r_out (fst (X (rma2_get_nla (m_region (trace_ring_buffer ep)) 0) e m)) = nla"
  shows "\<exists>ep' w1 w2 w3 start. configure_fpga X (ep, w) = (Inr (), (ep', w1))
    \<and> rra_read_rf X TraceBufferStart_RF ep' w1 = (Inr start, w2)
    \<and> rb_nla X (trace_ring_buffer ep') 0 w2 = (Inr (TraceBufferStart_data start), w3)"
proof -
  have nla: "r_out (answer X (rma2_get_nla (m_region (trace_ring_buffer ep)) 0) v) = nla" for v
    by (simp add: answer_eq assms(5))
  obtain config v where run: "configure_fpga X (ep, w) = configure_fpga_with X config (ep, v)"
    and start: "start_address (trace config) = nla"
    by (simp add: configure_fpga_def rb_nla_def nla)
  from configure_device [OF assms(1,2), of config v] trace_registers_written(1) [of latch config "get_node ep"]
  obtain w1 where w1: "configure_fpga X (ep, w) = (Inr (), (reset_rings ep, w1))" "regs (w_env w1) 0x5000 = nla"
    by (auto simp: run start assms(4))
  from rra_read_device [OF register_fpga_reset_rings [OF assms(1)] assms(3), of w1] w1(2) obtain w2 where
    "rra_read X (reset_rings ep) 0x5000 w1 = (Inr nla, w2)" by auto
  with w1(1) show ?thesis
    by (intro exI conjI) (auto simp: rra_read_rf_def TraceBufferStart_RF_def rf_ok rb_nla_def nla
        reset_rings_def reset_def TraceBufferStart_data_def)
qed

text \<open>The FPGA of the witnesses behind a card that translates every region to 0x20000.\<close>

fun fpga_nla_ext :: "(u64 \<Rightarrow> u64) ext" where
  "fpga_nla_ext (rma2_get_nla reg offset) R m = (\<lparr>r_status = RMA2_SUCCESS, r_ret = 0, r_out = 0x20000 + offset\<rparr>, R, m)"
| "fpga_nla_ext c R m = fpga_ext c R m"

lemma fpga_nla_ext_device: "register_fpga fpga_nla_ext ep7 id (\<lambda>a old v. v) rd_ok"
  unfolding register_fpga_def
proof (intro allI conjI impI)
  fix c R m
  show "r_status (fst (fpga_nla_ext c R m)) = RMA2_SUCCESS" by (cases c) simp_all
  show "id (fst (snd (fpga_nla_ext c R m))) = put_effect ep7 (\<lambda>a old v. v) c (id R)" by (cases c) simp_all
  show "snd (snd (fpga_nla_ext c R m)) 0 = get_effect ep7 c (id R) (m 0)" by (cases c) simp_all
qed

theorem configured_trace_start_reads_address_witness:
  "\<exists>ep' w1 w2 start. configure_fpga fpga_nla_ext (ep7, fpga_world) = (Inr (), (ep', w1))
    \<and> rra_read_rf fpga_nla_ext TraceBufferStart_RF ep' w1 = (Inr start, w2)
    \<and> TraceBufferStart_data start = 0x20000"
proof -
  have nla: "r_out (fst (fpga_nla_ext (rma2_get_nla reg 0) R m)) = 0x20000" for reg R m by simp
  from configured_trace_start_reads_address [OF fpga_nla_ext_device [of "\<lambda>a. a \<notin> {0x5020, 0x50a0}"] _ _ refl nla,
      of fpga_world]
  obtain ep' w1 w2 w3 start where "configure_fpga fpga_nla_ext (ep7, fpga_world) = (Inr (), (ep', w1))"
    "rra_read_rf fpga_nla_ext TraceBufferStart_RF ep' w1 = (Inr start, w2)"
    "rb_nla fpga_nla_ext (trace_ring_buffer ep') 0 w2 = (Inr (TraceBufferStart_data start), w3)" by auto
  then show ?thesis by (auto simp: rb_nla_def answer_eq)
qed

subsection \<open>Filling the send buffer and sending\<close>

text \<open>A client's loop over \<^verbatim>\<open>write_send\<close>, and what the card reads of the mapped buffer for a put.\<close>

fun fill_send :: "u64 \<Rightarrow> u64 list \<Rightarrow> ('e world, failure, unit) comp" where
  "fill_send i [] = ret ()"
| "fill_send i (x # xs) = andthen (write_send i x) (\<lambda>_. fill_send (i + 1) xs)"

definition dma_read :: "PhysicalBuffer \<Rightarrow> u64 \<Rightarrow> u64 \<Rightarrow> (u64 \<Rightarrow> u64) \<Rightarrow> u64 list" where
  "dma_read b addr bytes m =
     map (\<lambda>j. m ((addr - response_address b) div quad_word_size_bt + of_nat j)) [0..<unat bytes div 8]"

lemma fill_send_words:
  assumes "unat i + length xs \<le> unat send_buffer_size_qw"
  shows "\<exists>m. fill_send i xs w = (Inr (), w\<lparr>w_mem := m\<rparr>)
    \<and> map (\<lambda>j. m (512 + i + of_nat j)) [0..<length xs] = xs
    \<and> (\<forall>k < 512 + unat i. m (of_nat k) = w_mem w (of_nat k))"
  using assms
proof (induction i xs arbitrary: w rule: fill_send.induct)
  case (1 i)
  show ?case by (intro exI [of _ "w_mem w"]) simp
next
  case (2 i x xs)
  have size: "unat send_buffer_size_qw = 523776" by (simp add: send_buffer_size_qw_def buffer_consts)
  with "2.prems" have i: "i < send_buffer_size_qw" "unat (i + 1) = unat i + 1"
    by (simp_all add: word_less_nat_alt unat_u64_Suc)
  let ?w1 = "w\<lparr>w_mem := (w_mem w)(i + page_size_qw := x)\<rparr>"
  from send_index_ok [OF i(1)] have put: "write_send i x w = (Inr (), ?w1)"
    by (simp add: write_send_def buffer_put_def)
  from "2.IH" [of ?w1] "2.prems" i(2) obtain m where
    m: "fill_send (i + 1) xs ?w1 = (Inr (), w\<lparr>w_mem := m\<rparr>)"
      "map (\<lambda>j. m (512 + (i + 1) + of_nat j)) [0..<length xs] = xs"
      "\<And>k. k < 513 + unat i \<Longrightarrow> m (of_nat k) = ((w_mem w)(i + page_size_qw := x)) (of_nat k)"
    by auto
  have page: "page_size_qw = 512" by (simp add: buffer_consts)
  have pos: "i + page_size_qw = of_nat (512 + unat i)" "512 + i = of_nat (512 + unat i)"
    using page by (simp_all add: add.commute)
  have neq: "of_nat k \<noteq> i + page_size_qw" if "k < 512 + unat i" for k
  proof
    assume "of_nat k = i + page_size_qw"
    with send_index_ok(3) [OF i(1)] have "unat (of_nat k :: u64) = unat i + 512" by simp
    moreover have "unat (of_nat k :: u64) \<le> k" by (simp add: unat_of_nat)
    ultimately show False using that by simp
  qed
  have "m (512 + i) = x" using m(3) [of "512 + unat i"] unfolding pos by simp
  moreover have "map (\<lambda>j. m (512 + i + of_nat j)) [0..<Suc (length xs)] = m (512 + i) # xs"
    unfolding upt_conv_Cons [OF zero_less_Suc] using m(2) by (simp add: map_Suc_upt [symmetric] o_def add.assoc del: upt_Suc)
  ultimately show ?case
    using put m(1,3) neq by (intro exI [of _ m]) (auto simp: andthen_def)
qed

text \<open>
  C39: up to the size of the send buffer, filling it from the front with quad words and sending their
  number posts exactly one put, to the trace address on the RMA connection, with the physical
  address of the send buffer and eight bytes per word, and what the card finds there are the words
  written, all and in order. Nothing else is called, and an error status throws \<^verbatim>\<open>FailedToWrite\<close> with
  the trace address.
\<close>

theorem send_delivers_written:
  assumes "length xs \<le> unat send_buffer_size_qw"
  shows "\<exists>w1. let put = rma2_post_put_qw_direct (get_rma_port ep) (get_rma_handle ep) (send_address (buffer ep))
              (8 * of_nat (length xs)) trace_address RMA2_NO_NOTIFICATION
      in andthen (fill_send 0 xs) (\<lambda>_. rma_send X ep (of_nat (length xs))) w
           = (if r_status (answer X put w1) = RMA2_SUCCESS then Inr ()
              else Inl (Throw (FailedToWrite (get_node ep) trace_address)), after X put w1)
       \<and> asked w (after X put w1) = [put]
       \<and> dma_read (buffer ep) (send_address (buffer ep)) (8 * of_nat (length xs)) (w_mem w1) = xs"
proof -
  from fill_send_words [of 0 xs w] assms obtain m where
    m: "fill_send 0 xs w = (Inr (), w\<lparr>w_mem := m\<rparr>)" "map (\<lambda>j. m (512 + of_nat j)) [0..<length xs] = xs"
    by auto
  have "length xs < 0x100000"
    using assms by (simp add: send_buffer_size_qw_def buffer_consts)
  then have bytes: "unat (8 * of_nat (length xs) :: u64) div 8 = length xs"
    by (simp add: unat_word_ariths unat_of_nat)
  have "dma_read (buffer ep) (send_address (buffer ep)) (8 * of_nat (length xs)) m = xs"
    using m(2) by (simp add: dma_read_def bytes send_address_def response_address_def buffer_consts)
  with m(1) show ?thesis
    by (intro exI [of _ "w\<lparr>w_mem := m\<rparr>"])
      (simp add: andthen_def rma_send_def throw_on_error_def asked_def Let_def)
qed

theorem send_delivers_written_witness:
  "\<exists>w1. andthen (fill_send 0 [11, 22, 33]) (\<lambda>_. rma_send (always RMA2_SUCCESS 0) ep7 3) world0 = (Inr (), w1)
    \<and> asked world0 w1 = [rma2_post_put_qw_direct 8 9 0x8000 24 trace_address RMA2_NO_NOTIFICATION]
    \<and> dma_read (buffer ep7) 0x8000 24 (w_mem w1) = [11, 22, 33]"
proof -
  have "length [11, 22, 33 :: u64] \<le> unat send_buffer_size_qw"
    by (simp add: send_buffer_size_qw_def buffer_consts)
  from send_delivers_written [OF this, of ep7 "always RMA2_SUCCESS 0" world0] show ?thesis
    by (auto simp: Let_def ep7_def conn7_def get_rma_port_def get_rma_handle_def get_port_def get_handle_def
        send_address_def page_size_bt_def)
qed

subsection \<open>Moved objects\<close>

text \<open>
  C40: the classes are documented as moveable, but their defaulted move constructors copy the handles,
  addresses and regions and leave the old object as it was. When both the new and the old object
  are destroyed, each region is unregistered, each allocation freed, each mapping unmapped and each
  port disconnected and closed twice.
\<close>

theorem move_releases_twice:
  assumes "RingBuffer_move rb = (rb_new, rb_old)" and "PhysicalBuffer_move b = (b_new, b_old)"
    and "Connection_move c = (c_new, c_old)"
    and "destroy [del_ring X s1 rb_new, del_ring X s2 rb_old, del_buffer X b_new, del_buffer X b_old,
           del_connection X c_new, del_connection X c_old] s = Some (Inr (), s')"
  shows "released (snd s) (snd s') = ring_releases rb @ ring_releases rb
    @ buffer_releases b @ buffer_releases b @ conn_releases c @ conn_releases c"
proof -
  from assms(1-3) have same: "rb_new = rb" "rb_old = rb" "b_new = b" "b_old = b" "c_new = c" "c_old = c"
    by (auto simp: RingBuffer_move_def PhysicalBuffer_move_def Connection_move_def)
  have "destructor (destroy [del_ring X s1 rb, del_ring X s2 rb, del_buffer X b, del_buffer X b,
      del_connection X c, del_connection X c])
    (concat [ring_releases rb, ring_releases rb, buffer_releases b, buffer_releases b, conn_releases c, conn_releases c])"
    by (rule destroy_dtors) (simp add: ring_dtor.destructor_axioms buffer_dtor.destructor_axioms
        conn_dtor.destructor_axioms)
  from destructor.returns [OF this assms(4) [unfolded same]] show ?thesis by simp
qed

theorem move_releases_twice_witness:
  "\<exists>w. released (\<lparr>w_env = 0, w_mem = (\<lambda>_. 0), w_log = []\<rparr> :: nat world) w =
    [rma2_unregister 1 5, free_mem 0x1000, rma2_unregister 1 5, free_mem 0x1000,
     munmap_pmap 0x1000 0x400000, munmap_pmap 0x1000 0x400000,
     rma2_disconnect 7 9, rma2_close 7, rma2_disconnect 7 9, rma2_close 7]"
proof -
  let ?w = "\<lparr>w_env = 0, w_mem = (\<lambda>_. 0), w_log = []\<rparr> :: nat world" and ?p = "NotificationPoller_new 1"
  let ?b = "buffer ep7"
  obtain s' where run: "destroy [del_ring queue_ext (\<lambda>i. []) small_ring, del_ring queue_ext (\<lambda>i. []) small_ring,
      del_buffer queue_ext ?b, del_buffer queue_ext ?b, del_connection queue_ext conn7,
      del_connection queue_ext conn7] (?p, ?w) = Some (Inr (), s')"
    by (simp add: del_ring_def RingBuffer_delete_def notify_def notify_call_def Let_def del_buffer_def PhysicalBuffer_delete_def
        del_connection_def Connection_delete_def conn7_def drain_notifications.simps after_def answer_def ask_def)
  from move_releases_twice [OF RingBuffer_move_def PhysicalBuffer_move_def Connection_move_def run] show ?thesis
    by (intro exI [of _ "snd s'"])
      (simp add: ring_releases_def buffer_releases_def conn_releases_def small_ring_def ep7_def conn7_def
        pages_def page_size_bt_def)
qed

end
