(* ===== verification/Configured_Link.thy ===== *)
theory Configured_Link
  imports Sized_Link Client_Use
begin

text \<open>
  Configuration and data path together. \<^verbatim>\<open>configure_fpga.h\<close> says of \<^verbatim>\<open>TraceBufferInit\<close> that writing a 1
  "will reconfigure the trace-pulse data ringbuffer according to the previously written config
  values": only then does the FPGA take over the start address and the size that were written before.
  With the capacity taken over, delivery holds exactly when it is the size of the ring buffer, and the
  default configuration is such a one.
\<close>

subsection \<open>The trace ring of the FPGA\<close>

text \<open>The start address and the capacity in quad words that the registers hold.\<close>

definition trace_capacity_qw :: "(u64 \<Rightarrow> u64) \<Rightarrow> nat" where
  "trace_capacity_qw R = unat (TraceBufferSize_data \<lparr>TraceBufferSize_raw = R (rf_address TraceBufferSize_RF)\<rparr>) div 8"

definition trace_values :: "(u64 \<Rightarrow> u64) \<Rightarrow> u64 \<times> nat" where
  "trace_values R =
     (TraceBufferStart_data \<lparr>TraceBufferStart_raw = R (rf_address TraceBufferStart_RF)\<rparr>, trace_capacity_qw R)"

definition starts_trace :: "u64 \<Rightarrow> u64 \<Rightarrow> bool" where
  "starts_trace a v \<longleftrightarrow> a = rf_address TraceBufferInit_RF \<and> TraceBufferInit_start \<lparr>TraceBufferInit_raw = v\<rparr>"

fun reconfigures :: "Endpoint \<Rightarrow> ext_call \<Rightarrow> bool" where
  "reconfigures ep (rma2_post_immediate_put port handle n v a spec) \<longleftrightarrow>
     port = get_rra_port ep \<and> handle = get_rra_handle ep \<and> starts_trace a v"
| "reconfigures ep _ \<longleftrightarrow> False"

text \<open>
  An FPGA whose registers answer and whose trace ring \<open>engine\<close> (start address and capacity) is set
  from them by a write that starts it, and by nothing else.
\<close>

definition trace_fpga ::
  "'e ext \<Rightarrow> Endpoint \<Rightarrow> ('e \<Rightarrow> u64 \<Rightarrow> u64) \<Rightarrow> (u64 \<Rightarrow> u64 \<Rightarrow> u64 \<Rightarrow> u64) \<Rightarrow> (u64 \<Rightarrow> bool)
   \<Rightarrow> ('e \<Rightarrow> u64 \<times> nat) \<Rightarrow> bool" where
  "trace_fpga X ep regs latch rd_ok engine \<longleftrightarrow> register_fpga X ep regs latch rd_ok
     \<and> (\<forall>c e m. engine (fst (snd (X c e m))) = (if reconfigures ep c then trace_values (regs e) else engine e))"

lemma engine_after:
  assumes "trace_fpga X ep regs latch rd_ok engine"
  shows "engine (w_env (after X c w)) = (if reconfigures ep c then trace_values (regs (w_env w)) else engine (w_env w))"
  using assms unfolding trace_fpga_def w_env_after by blast

text \<open>Registers and trace ring as one state of a device.\<close>

definition trace_store ::
  "(u64 \<Rightarrow> u64 \<Rightarrow> u64 \<Rightarrow> u64) \<Rightarrow> u64 \<Rightarrow> u64 \<Rightarrow> (u64 \<Rightarrow> u64) \<times> (u64 \<times> nat) \<Rightarrow> (u64 \<Rightarrow> u64) \<times> (u64 \<times> nat)" where
  "trace_store latch a v s =
     (latch_store latch a v (fst s), if starts_trace a v then trace_values (fst s) else snd s)"

lemma trace_write_device:
  assumes "trace_fpga X ep regs latch rd_ok engine"
  shows "\<exists>w'. rra_write X ep a v w = (Inr (), w')
    \<and> (regs (w_env w'), engine (w_env w')) = trace_store latch a v (regs (w_env w), engine (w_env w))"
proof -
  from assms have dev: "register_fpga X ep regs latch rd_ok" by (simp add: trace_fpga_def)
  show ?thesis
    by (simp add: rra_write_def complete_def register_fpga_step(1,2) [OF dev] rra_call_def latch_store_def
        fun_upd_def engine_after [OF assms] trace_store_def)
qed

lemma trace_read_device:
  assumes "trace_fpga X ep regs latch rd_ok engine" and "rd_ok a"
  shows "\<exists>w'. rra_read X ep a w = (Inr (regs (w_env w) a), w')
    \<and> (regs (w_env w'), engine (w_env w')) = (regs (w_env w), engine (w_env w))"
proof -
  from assms have dev: "register_fpga X ep regs latch rd_ok" by (simp add: trace_fpga_def)
  from assms(2) show ?thesis
    by (simp add: rra_read_def complete_def register_fpga_step [OF dev] rra_call_def engine_after [OF assms(1)])
qed

interpretation tracing: configured_device X ep "\<lambda>e. (regs e, engine e)" "trace_store latch" fst rd_ok
    "\<lambda>_. trace_fpga X ep regs latch rd_ok engine \<and> rd_ok 0x8008"
  for X ep regs engine latch rd_ok
proof
  show "fst (trace_store latch a v s) b = fst s b" if "a \<noteq> b" for a b v s
    using that rra_dev.others [of a b latch v "fst s"] by (simp add: trace_store_def)
qed (metis trace_write_device, metis trace_read_device fst_conv, simp)

subsection \<open>What a configuration leaves in it\<close>

lemma trace_capacity_written:
  assumes "R 0x5008 = ucast (n :: u32)"
  shows "trace_capacity_qw R = unat n div 8"
  using assms
  by (simp add: trace_capacity_qw_def rf_simps)

lemma trace_store_registers:
  "fst (fold (\<lambda>(a, v). trace_store latch a v) ws s) = registers_after latch ws (fst s)"
  unfolding registers_after_def
  by (induction ws arbitrary: s) (simp_all add: trace_store_def case_prod_beta)

lemma trace_store_quiet:
  "rf_address TraceBufferInit_RF \<notin> fst ` set ws \<Longrightarrow>
   snd (fold (\<lambda>(a, v). trace_store latch a v) ws s) = snd s"
  by (induction ws arbitrary: s) (auto simp: trace_store_def starts_trace_def case_prod_beta)

text \<open>The planned writes up to the start of the trace ring, and those after it.\<close>

definition before_start :: "PartnerHostConfiguration \<Rightarrow> (u64 \<times> u64) list" where
  "before_start config =
     [(0x5298, host_endpoint_word config), (0x52a0, config_put_address config)]
     @ ring_writes (hicann config) 0x5080 0x5088 0x5090 0x52b0 0x50a0
     @ ring_writes (trace config) 0x5000 0x5008 0x5010 0x52a8 0x5020"

lemma planned_split:
  "planned_writes config = before_start config @ (0x5040, 1) # [(0x50c0, 1), closure_write config]"
  by (simp add: planned_writes_def config_writes_def before_start_def)

lemma before_start_trace:
  "registers_after latch (before_start config) R 0x5000 = latch 0x5000 (R 0x5000) (start_address (trace config))"
  "registers_after latch (before_start config) R 0x5008 = latch 0x5008 (R 0x5008) (ucast (capacity (trace config)))"
proof -
  have d: "distinct (map fst (before_start config))" by (simp add: before_start_def ring_writes_def)
  show "registers_after latch (before_start config) R 0x5000 = latch 0x5000 (R 0x5000) (start_address (trace config))"
    "registers_after latch (before_start config) R 0x5008 = latch 0x5008 (R 0x5008) (ucast (capacity (trace config)))"
    by (rule registers_after_distinct [OF d], simp add: before_start_def ring_writes_def)+
qed

lemma planned_engine:
  assumes "\<And>old v. latch 0x5000 old v = v" and "\<And>old v. latch 0x5008 old v = v"
  shows "snd (fold (\<lambda>(a, v). trace_store latch a v) (planned_writes config @ [info_write node old]) s)
    = (start_address (trace config), unat (capacity (trace config)) div 8)"
proof -
  let ?t = "fold (\<lambda>(a, v). trace_store latch a v) (before_start config) s"
  have regs: "fst ?t 0x5000 = start_address (trace config)" "fst ?t 0x5008 = ucast (capacity (trace config))"
    by (simp_all add: trace_store_registers before_start_trace assms)
  have "snd (fold (\<lambda>(a, v). trace_store latch a v) (planned_writes config @ [info_write node old]) s)
      = snd (fold (\<lambda>(a, v). trace_store latch a v) [(0x50c0, 1), closure_write config, info_write node old]
          (trace_store latch 0x5040 1 ?t))"
    by (simp add: planned_split)
  also have "\<dots> = snd (trace_store latch 0x5040 1 ?t)"
    by (rule trace_store_quiet) (simp add: closure_write_def info_write_def TraceBufferInit_RF_def)
  also have "\<dots> = trace_values (fst ?t)"
    by (simp add: trace_store_def starts_trace_def rf_simps bf_read_def)
  also have "\<dots> = (start_address (trace config), unat (capacity (trace config)) div 8)"
    using regs trace_capacity_written [of "fst ?t", OF regs(2)] by (simp add: trace_values_def rf_simps)
  finally show ?thesis .
qed

lemma configured_engine:
  assumes "trace_fpga X ep regs latch rd_ok engine" and "rd_ok 0x8008"
    and "\<And>old v. latch 0x5000 old v = v" and "\<And>old v. latch 0x5008 old v = v"
  shows "\<exists>w'. configure_fpga_with X config (ep, w) = (Inr (), (reset_rings ep, w'))
    \<and> engine (w_env w') = (start_address (trace config), unat (capacity (trace config)) div 8)"
proof -
  from tracing.configure_live [of X ep regs latch rd_ok engine config w] assms(1,2) obtain w' where
    run: "configure_fpga_with X config (ep, w) = (Inr (), (reset_rings ep, w'))"
    and state: "(regs (w_env w'), engine (w_env w')) = fold (\<lambda>(a, v). trace_store latch a v)
      (planned_writes config @ [info_write (get_node ep) (regs (w_env w) 0x8008)]) (regs (w_env w), engine (w_env w))"
    by auto
  from arg_cong [OF state, of snd] have
    "engine (w_env w') = (start_address (trace config), unat (capacity (trace config)) div 8)"
    by (simp only: planned_engine [OF assms(3,4)] snd_conv)
  with run show ?thesis by blast
qed

text \<open>The network address the default configuration is given for the trace ring.\<close>

definition asked_trace_nla :: "'e ext \<Rightarrow> Endpoint \<Rightarrow> 'e world \<Rightarrow> u64" where
  "asked_trace_nla X ep w =
     (let w1 = after X (rma2_get_nodeid (get_rma_port ep)) w;
          w2 = after X (rma2_get_nla (m_region (hicann_ring_buffer ep)) 0) w1
      in r_out (answer X (rma2_get_nla (m_region (trace_ring_buffer ep)) 0) w2))"

lemma default_engine:
  assumes "trace_fpga X ep regs latch rd_ok engine" and "rd_ok 0x8008"
    and "\<And>old v. latch 0x5000 old v = v" and "\<And>old v. latch 0x5008 old v = v" and "endpoint_wf ep"
  shows "\<exists>w'. configure_fpga X (ep, w) = (Inr (), (reset_rings ep, w'))
    \<and> engine (w_env w') = (asked_trace_nla X ep w, 0x100000)"
proof -
  obtain default v where run: "configure_fpga X (ep, w) = configure_fpga_with X default (ep, v)"
    and "capacity (trace default) = ucast (size_bt (trace_ring_buffer ep))"
    and "start_address (trace default) = asked_trace_nla X ep w"
    by (simp add: configure_fpga_def rb_nla_def asked_trace_nla_def)
  moreover have "size_bt (trace_ring_buffer ep) = 0x800000"
    using assms(5) by (simp add: endpoint_wf_def ring_of_def word_unat_eq_iff)
  ultimately have "unat (capacity (trace default)) div 8 = 0x100000"
    "start_address (trace default) = asked_trace_nla X ep w" by simp_all
  with configured_engine [OF assms(1-4), of default v] show ?thesis by (simp add: run)
qed

lemma endpoint_delivers_iff:
  assumes "endpoint_wf ep" and "m_packets (poller ep) = 0" and "0 < cap"
  shows "delivers Y cap (trace_ring_buffer (reset_rings ep)) (poller ep) \<longleftrightarrow> cap = 0x100000"
proof -
  let ?rb = "trace_ring_buffer ep"
  have "unat (size_qw ?rb) = 0x100000"
    using assms(1) by (simp add: endpoint_wf_def ring_of_def)
  moreover from this have "0 < size_qw ?rb" "size_qw ?rb < 0x100000000"
    by (simp_all add: word_less_nat_alt)
  ultimately show ?thesis using delivers_iff [of ?rb "poller ep" cap Y] assms(2,3)
    by (simp add: reset_rings_def)
qed

subsection \<open>Property\<close>


text \<open>An endpoint with the ring buffers of the source, in the middle of its ring.\<close>

definition ep_live :: Endpoint where
  "ep_live = ep7
     \<lparr>hicann_ring_buffer := small_ring\<lparr>size_bt := 0x1000, size_qw := 0x200, rb_port := 8, rb_handle := 9\<rparr>,
      trace_ring_buffer := small_ring\<lparr>size_bt := 0x800000, size_qw := 0x100000, rb_port := 8, rb_handle := 9\<rparr>\<rparr>"

lemma ep_live_wf: "endpoint_wf ep_live" "m_packets (poller ep_live) = 0"
  by (simp_all add: ep_live_def ep7_def endpoint_wf_def ring_of_def ring_wf_def small_ring_def
      get_rma_port_def get_rma_handle_def get_port_def get_handle_def conn7_def
      NotificationPoller_new_def num_words_to_notify_def)

text \<open>The FPGA of the witnesses with a trace ring, which starts as no ring at all.\<close>

definition fpga_reply :: "ext_call \<Rightarrow> ext_reply" where
  "fpga_reply c = \<lparr>r_status = RMA2_SUCCESS, r_ret = 0, r_out = (case c of
     rma2_get_nla reg offset \<Rightarrow> 0x20000 + offset | rma2_noti_get_notiput_class n \<Rightarrow> 0xca
     | rma2_noti_get_notiput_payload n \<Rightarrow> 1 | _ \<Rightarrow> 0)\<rparr>"

definition tracing_ext :: "((u64 \<Rightarrow> u64) \<times> (u64 \<times> nat)) ext" where
  "tracing_ext c e m = (fpga_reply c,
     (put_effect ep_live (\<lambda>a old v. v) c (fst e), if reconfigures ep_live c then trace_values (fst e) else snd e),
     m(0 := get_effect ep_live c (fst e) (m 0)))"

lemma tracing_ext_device: "trace_fpga tracing_ext ep_live fst (\<lambda>a old v. v) rd_ok snd"
  by (simp add: trace_fpga_def register_fpga_def tracing_ext_def fpga_reply_def)

definition tracing_world :: "((u64 \<Rightarrow> u64) \<times> (u64 \<times> nat)) world" where
  "tracing_world = \<lparr>w_env = (w_env fpga_world, (0, 0)), w_mem = (\<lambda>_. 0), w_log = []\<rparr>"

definition half_config :: PartnerHostConfiguration where
  "half_config = config7\<lparr>trace := (trace config7)\<lparr>capacity := 0x400000\<rparr>\<rparr>"


end
