(* ===== verification/Shared_Counter.thy ===== *)
theory Shared_Counter
  imports Endpoint_States
begin

text \<open>
  The two ring buffers of an endpoint share one poller, and the poller has one counter. This theory
  shows what follows: whichever ring is received from first takes the packets of both, every ring
  reports what it read under the identifier of the trace ring, and a reset of the rings leaves the
  counter as it was.
\<close>

lemma ring_slice_reset:
  "ring_slice (reset rb) n = map (\<lambda>i. m_buffer rb (of_nat (i mod unat (size_qw rb)))) [0..<n]"
  by (simp add: ring_slice_def reset_def)

lemma ring_wf_reset: "ring_wf rb \<Longrightarrow> ring_wf (reset rb)"
  by (auto simp: ring_wf_def reset_def word_less_nat_alt)

lemma receive_pending:
  fixes X :: "'e ext"
  assumes "ring_wf rb" and "0 < m_packets p"
    and "n = unat (m_readable_words rb + m_packets p)" and "m_readable_words rb + m_packets p \<le> vector_max_size"
  shows "\<exists>w'. receive X bs rb p w = Inr (ring_slice rb n,
      rb\<lparr>m_read_index := of_nat ((unat (m_read_index rb) + n) mod unat (size_qw rb)),
        m_readable_words := 0, m_read_words := 0\<rparr>, p\<lparr>m_packets := 0\<rparr>, bs, w')
    \<and> acked_words (asked w w') = unat (m_read_words rb) + n
    \<and> list_all (own_notification rb) (asked w w')"
proof -
  have "consume_packets bs p = Inr (m_packets p, p\<lparr>m_packets := 0\<rparr>, bs)"
    using assms(2) by (cases bs) (simp_all add: consume_packets_def)
  from receive_spec [OF assms(1) this assms(3,4), of X w] show ?thesis by auto
qed

lemma receive_nothing:
  fixes X :: "'e ext"
  assumes "ring_wf rb" and "m_packets p = 0" and "m_readable_words rb = 0"
  shows "\<exists>rb' p' w'. receive X [] rb p w = Inr ([], rb', p', [], w')"
proof -
  have "consume_packets [] p = Inr (0, p\<lparr>m_packets := 0\<rparr>, [])"
    using assms(2) by (simp add: consume_packets_def)
  from receive_spec [OF assms(1) this refl, of X w] assms(3) show ?thesis by (auto simp: vector_max_size_def)
qed

text \<open>The identifier a notification carries in its upper bits.\<close>

fun noti_identifier :: "ext_call \<Rightarrow> u64 option" where
  "noti_identifier (rma2_post_notification port handle cls payload spec) = Some (drop_bit 48 payload)"
| "noti_identifier _ = None"

lemma own_notification_identifier:
  assumes "list_all (own_notification rb) cs" and "c \<in> set cs"
  shows "noti_identifier c = Some trace_identifier"
proof -
  have "r < 0x1000000000000" if "r \<le> num_words_to_notify + 1" for r :: u64
    using that by (rule order_le_less_trans) (simp add: num_words_to_notify_def)
  with assms show ?thesis
    by (auto simp: list_all_iff own_notification_def notify_payload_fields(2))
qed

text \<open>
  C17: packets announced for the trace ring are lost to it when the HICANN ring is received from
  first. With \<open>n\<close> packets counted and nothing readable, a receive on the HICANN ring takes all of
  them, returns \<open>n\<close> words of its own memory and reports them to the FPGA under the identifier of the
  trace ring, and the receive on the trace ring that follows returns nothing.
\<close>

theorem hicann_receive_takes_trace_packets:
  assumes "endpoint_wf ep" and "0 < m_packets (poller ep)"
    and "m_readable_words (hicann_ring_buffer ep) = 0" and "m_readable_words (trace_ring_buffer ep) = 0"
    and "n = unat (m_packets (poller ep))" and "m_packets (poller ep) \<le> vector_max_size"
  shows "\<exists>rb' p' w1 rb'' p'' w2.
      receive X bs (hicann_ring_buffer ep) (poller ep) w
        = Inr (ring_slice (hicann_ring_buffer ep) n, rb', p', bs, w1)
    \<and> noti_identifier ` set (asked w w1) \<subseteq> {Some trace_identifier}
    \<and> acked_words (asked w w1) = unat (m_read_words (hicann_ring_buffer ep)) + n
    \<and> receive X [] (trace_ring_buffer ep) p' w1 = Inr ([], rb'', p'', [], w2)
    \<and> trace_identifier \<noteq> hicann_identifier"
proof -
  from assms(1) have wf: "ring_wf (hicann_ring_buffer ep)" "ring_wf (trace_ring_buffer ep)"
    by (simp_all add: endpoint_wf_def ring_of_def)
  have "n = unat (m_readable_words (hicann_ring_buffer ep) + m_packets (poller ep))"
    and "m_readable_words (hicann_ring_buffer ep) + m_packets (poller ep) \<le> vector_max_size"
    using assms(3,5,6) by simp_all
  from receive_pending [OF wf(1) assms(2) this, of X bs w] obtain rb' w1 where
    first: "receive X bs (hicann_ring_buffer ep) (poller ep) w
        = Inr (ring_slice (hicann_ring_buffer ep) n, rb', (poller ep)\<lparr>m_packets := 0\<rparr>, bs, w1)"
      "acked_words (asked w w1) = unat (m_read_words (hicann_ring_buffer ep)) + n"
      "list_all (own_notification (hicann_ring_buffer ep)) (asked w w1)" by blast
  have "noti_identifier ` set (asked w w1) \<subseteq> {Some trace_identifier}"
    using own_notification_identifier [OF first(3)] by auto
  moreover have "trace_identifier \<noteq> hicann_identifier"
    by (simp add: trace_identifier_def hicann_identifier_def)
  ultimately show ?thesis
    using first receive_nothing [OF wf(2) _ assms(4), of "(poller ep)\<lparr>m_packets := 0\<rparr>" X w1] by auto
qed

definition ep_two_pending :: Endpoint where
  "ep_two_pending = ep_session\<lparr>poller := (NotificationPoller_new 7)\<lparr>m_packets := 2\<rparr>\<rparr>"

lemma ep_two_pending_wf: "endpoint_wf ep_two_pending"
  by (simp add: ep_two_pending_def ep_session_def endpoint_wf_def ring_of_def ring_wf_def get_rma_port_def
      get_port_def get_rma_handle_def get_handle_def NotificationPoller_new_def num_words_to_notify_def)

theorem hicann_receive_takes_trace_packets_witness:
  "\<exists>rb' p' w1 rb'' p'' w2.
      receive (always RMA2_SUCCESS 0) [] (hicann_ring_buffer ep_two_pending) (poller ep_two_pending) world0
        = Inr ([0, 0], rb', p', [], w1)
    \<and> acked_words (asked world0 w1) = 2
    \<and> receive (always RMA2_SUCCESS 0) [] (trace_ring_buffer ep_two_pending) p' w1 = Inr ([], rb'', p'', [], w2)"
proof -
  have "ring_slice (hicann_ring_buffer ep_two_pending) 2 = [0, 0]"
    by (simp add: ring_slice_def ep_two_pending_def ep_session_def upt_rec)
  note slice = this
  have "0 < m_packets (poller ep_two_pending)" "m_readable_words (hicann_ring_buffer ep_two_pending) = 0"
    "m_readable_words (trace_ring_buffer ep_two_pending) = 0" "2 = unat (m_packets (poller ep_two_pending))"
    "m_packets (poller ep_two_pending) \<le> vector_max_size"
    "m_read_words (hicann_ring_buffer ep_two_pending) = 0"
    by (simp_all add: ep_two_pending_def ep_session_def vector_max_size_def)
  from hicann_receive_takes_trace_packets [OF ep_two_pending_wf this(1-5), of "always RMA2_SUCCESS 0" "[]" world0]
    this(6) show ?thesis unfolding slice by auto
qed

text \<open>
  C18: the configuration resets the two rings but not the counter of the poller. Packets that were
  counted before it, of whichever earlier stream, are still there: the first receive on the trace
  ring afterwards returns that many words from the beginning of the ring, whether or not the FPGA
  has written any since, and acknowledges them.
\<close>

theorem configure_keeps_stale_count:
  assumes "endpoint_wf ep" and "configure_fpga_with X config (ep, w) = (Inr (), (ep', w'))"
    and "0 < m_packets (poller ep)" and "n = unat (m_packets (poller ep))"
    and "m_packets (poller ep) \<le> vector_max_size"
  shows "\<exists>rb' p' w''. receive X bs (trace_ring_buffer ep') (poller ep') w' =
      Inr (map (\<lambda>i. m_buffer (trace_ring_buffer ep) (of_nat (i mod 0x100000))) [0..<n], rb', p', bs, w'')
    \<and> acked_words (asked w' w'') = n"
proof -
  from configure_fpga_outcome [OF assms(2)] have "ep' = reset_rings ep"
    by (auto simp: config_outcome_def Let_def)
  then have ep': "trace_ring_buffer ep' = reset (trace_ring_buffer ep)" "poller ep' = poller ep"
    by (simp_all add: reset_rings_def)
  from assms(1) have wf: "ring_wf (reset (trace_ring_buffer ep))" "unat (size_qw (trace_ring_buffer ep)) = 0x100000"
    by (simp_all add: endpoint_wf_def ring_of_def ring_wf_reset)
  have "n = unat (m_readable_words (reset (trace_ring_buffer ep)) + m_packets (poller ep))"
    and "m_readable_words (reset (trace_ring_buffer ep)) + m_packets (poller ep) \<le> vector_max_size"
    using assms(4,5) by (simp_all add: reset_def)
  from receive_pending [OF wf(1) assms(3) this, of X bs w'] show ?thesis
    by (auto simp: ep' ring_slice_reset wf(2)) (simp add: reset_def)
qed

theorem configure_keeps_stale_count_witness:
  "\<exists>ep' w' rb' p' w''. configure_fpga_with queue_ext config7 (ep_two_pending, one_pending\<lparr>w_env := 0\<rparr>) = (Inr (), (ep', w'))
    \<and> receive queue_ext [] (trace_ring_buffer ep') (poller ep') w' = Inr ([0, 0], rb', p', [], w'')
    \<and> acked_words (asked w' w'') = 2"
proof -
  let ?w = "one_pending\<lparr>w_env := 0\<rparr>"
  obtain w' where conf: "configure_fpga_with queue_ext config7 (ep_two_pending, ?w) = (Inr (), (reset_rings ep_two_pending, w'))"
    using session_configures [of ?w config7 ep_two_pending] by auto
  have "0 < m_packets (poller ep_two_pending)" "2 = unat (m_packets (poller ep_two_pending))"
    "map (\<lambda>i. m_buffer (trace_ring_buffer ep_two_pending) (of_nat (i mod 0x100000))) [0..<2] = [0, 0]"
    "m_packets (poller ep_two_pending) \<le> vector_max_size"
    by (simp_all add: ep_two_pending_def ep_session_def upt_rec vector_max_size_def)
  from configure_keeps_stale_count [OF ep_two_pending_wf conf this(1,2,4), of "[]"] conf this(3)
  show ?thesis by auto
qed

end
