(* ===== verification/Endpoint_Session.thy ===== *)
theory Endpoint_Session
  imports Configured_Link Receive_Call Shared_Counter
begin

text \<open>
  An endpoint at work after its configuration. The client calls \<^verbatim>\<open>receive\<close> on the trace ring, call
  after call, and accesses registers, sends and pings; the polling thread runs the turns of its loop;
  the FPGA fills the ring with the capacity it took over when \<^verbatim>\<open>TraceBufferInit\<close> was written. A call of
  \<^verbatim>\<open>receive\<close> can be interrupted between its poll, its words and its notification, and all of this
  interleaves on the state of the endpoint. The theory shows that the trace ring and the poller of the
  endpoint then behave as the link of \<^verbatim>\<open>Ring_Protocol\<close>, and that the endpoint keeps its type and its
  resources.

  Left out is what would break this: receiving from the HICANN ring, which takes the packets of the
  trace ring, and resetting a ring or configuring again while words are under way, which forgets them
  (\<^verbatim>\<open>Shared_Counter\<close>); and a register write of the client's own that restarts the trace ring.
\<close>

subsection \<open>State and steps\<close>

text \<open>What is on its way between FPGA and host, as in \<open>link\<close>, and the phase of the client's call.\<close>

record traffic =
  t_inflight :: "nat list"
  t_written :: nat
  t_announced :: nat
  t_got :: "u64 list"
  t_posted :: nat
  t_acked :: nat
  t_phase :: phase

definition no_traffic :: traffic where
  "no_traffic = \<lparr>t_inflight = [], t_written = 0, t_announced = 0, t_got = [], t_posted = 0, t_acked = 0,
     t_phase = Returned\<rparr>"

type_synonym 'e at_work = "(Endpoint \<times> 'e world) \<times> traffic"

abbreviation set_trace :: "Endpoint \<Rightarrow> RingBuffer \<Rightarrow> Endpoint" where
  "set_trace ep rb \<equiv> ep\<lparr>trace_ring_buffer := rb\<rparr>"

text \<open>
  The capacity is the one of the FPGA's trace ring at that moment. A turn of the polling thread finds
  the oldest notification under way and counts it, or leaves the counters alone;
  \<open>poll_notifications X 1\<close> is the code of one turn. The accesses of the client touch neither ring nor
  poller, and may happen at any time.
\<close>

inductive session_step :: "'e ext \<Rightarrow> (nat \<Rightarrow> u64) \<Rightarrow> ('e \<Rightarrow> u64 \<times> nat) \<Rightarrow> 'e at_work \<Rightarrow> 'e at_work \<Rightarrow> bool"
  for X stream engine where
  session_write: "cap = snd (engine (w_env w)) \<Longrightarrow> t_written t < t_acked t + cap \<Longrightarrow>
    session_step X stream engine ((ep, w), t)
      ((set_trace ep ((trace_ring_buffer ep)\<lparr>m_buffer := (m_buffer (trace_ring_buffer ep))
          (of_nat (t_written t mod cap) := stream (t_written t))\<rparr>), w), t\<lparr>t_written := Suc (t_written t)\<rparr>)"
| session_announce: "t_announced t + k \<le> t_written t \<Longrightarrow>
    session_step X stream engine (s, t) (s, t\<lparr>t_inflight := t_inflight t @ [k], t_announced := t_announced t + k\<rparr>)"
| session_ack: "t_acked t \<le> k \<Longrightarrow> k \<le> t_posted t \<Longrightarrow>
    session_step X stream engine (s, t) (s, t\<lparr>t_acked := k\<rparr>)"
| session_turn: "t_inflight t = k # ks \<Longrightarrow> poll_notifications X 1 (poller ep) w = (Inr p, w') \<Longrightarrow>
    dispatch 0xca (of_nat k AND 0xffffffff) (poller ep) = Inr p \<Longrightarrow>
    session_step X stream engine ((ep, w), t) ((ep\<lparr>poller := p\<rparr>, w'), t\<lparr>t_inflight := ks\<rparr>)"
| session_idle: "poll_notifications X 1 (poller ep) w = (Inr (poller ep), w') \<Longrightarrow>
    session_step X stream engine ((ep, w), t) ((ep, w'), t)"
| session_call: "t_phase t = Returned \<Longrightarrow>
    session_step X stream engine (s, t) (s, t\<lparr>t_phase := Called\<rparr>)"
| session_poll: "t_phase t = Called \<Longrightarrow>
    poll [] (trace_ring_buffer ep) (poller ep) = Inr (b, rb, p, rest) \<Longrightarrow> m_readable_words rb \<le> vector_max_size \<Longrightarrow>
    session_step X stream engine ((ep, w), t) ((set_trace (ep\<lparr>poller := p\<rparr>) rb, w), t\<lparr>t_phase := Looping\<rparr>)"
| session_throw: "t_phase t = Called \<Longrightarrow>
    poll [] (trace_ring_buffer ep) (poller ep) = Inr (b, rb, p, rest) \<Longrightarrow> \<not> m_readable_words rb \<le> vector_max_size \<Longrightarrow>
    session_step X stream engine ((ep, w), t) ((set_trace (ep\<lparr>poller := p\<rparr>) rb, w), t\<lparr>t_phase := Returned\<rparr>)"
| session_word: "t_phase t = Looping \<Longrightarrow> m_readable_words (trace_ring_buffer ep) > 0 \<Longrightarrow>
    receive_word X (trace_ring_buffer ep, t_got t, w) = Inr (rb, words, w') \<Longrightarrow>
    session_step X stream engine ((ep, w), t) ((set_trace ep rb, w'),
      t\<lparr>t_got := words, t_posted := t_posted t + acked_words (asked w w')\<rparr>)"
| session_notify: "t_phase t = Looping \<Longrightarrow> \<not> m_readable_words (trace_ring_buffer ep) > 0 \<Longrightarrow>
    notify X (trace_ring_buffer ep) w = (rb, w') \<Longrightarrow>
    session_step X stream engine ((ep, w), t) ((set_trace ep rb, w'),
      t\<lparr>t_phase := Returned, t_posted := t_posted t + acked_words (asked w w')\<rparr>)"
| session_access: "w' \<in> accesses X ep w \<Longrightarrow> \<not> list_ex (\<lambda>(a, v). starts_trace a v) (writes (asked w w')) \<Longrightarrow>
    session_step X stream engine ((ep, w), t) ((ep, w'), t)"

subsection \<open>Type, resources and the FPGA's trace ring\<close>

text \<open>What a step of the session keeps of the endpoint and gives back to librma2.\<close>

definition sound_step :: "Endpoint \<times> 'e world \<Rightarrow> Endpoint \<times> 'e world \<Rightarrow> bool" where
  "sound_step s s' \<longleftrightarrow> endpoint_wf (fst s') \<and> extends (snd s) (snd s') \<and> released (snd s) (snd s') = []
     \<and> get_rra_port (fst s') = get_rra_port (fst s) \<and> get_rra_handle (fst s') = get_rra_handle (fst s)"

lemma endpoint_wf_trace:
  assumes "endpoint_wf ep" and "same_ring (trace_ring_buffer ep) rb" and "ring_wf rb"
  shows "endpoint_wf (set_trace ep rb)"
  using assms ring_of_same by (auto simp: endpoint_wf_def)

lemma word_sound:
  assumes "endpoint_wf ep" and "receive_word X (trace_ring_buffer ep, ws, w) = Inr (rb, words, w')"
  shows "endpoint_wf (set_trace ep rb) \<and> extends w w' \<and> released w w' = []"
proof -
  have wf: "ring_wf (trace_ring_buffer ep)" using assms(1) by (simp add: endpoint_wf_def ring_of_def)
  from receive_word_result [OF wf assms(2)] have "same_ring (trace_ring_buffer ep) rb" "ring_wf rb"
    by (auto simp: same_ring_def advance_def)
  moreover have "w' = w \<or> w' = after X (notify_call (advance (trace_ring_buffer ep))) w"
    using assms(2) unfolding receive_word_eq [OF wf] by (auto split: if_splits)
  ultimately show ?thesis
    using endpoint_wf_trace [OF assms(1)] by (auto simp: released_after notify_call_def)
qed

lemma notify_sound:
  assumes "endpoint_wf ep" and "notify X (trace_ring_buffer ep) w = (rb, w')"
  shows "endpoint_wf (set_trace ep rb) \<and> extends w w' \<and> released w w' = []"
proof -
  from assms have "same_ring (trace_ring_buffer ep) rb" "ring_wf rb"
    by (auto simp: notify_def same_ring_def endpoint_wf_def ring_of_def ring_wf_def)
  with endpoint_wf_trace [OF assms(1)] assms(2) show ?thesis
    by (auto simp: notify_def released_after notify_call_def)
qed

lemma poll_sound:
  assumes "endpoint_wf ep" and "poll bs (trace_ring_buffer ep) (poller ep) = Inr (b, rb, p, rest)"
  shows "endpoint_wf (set_trace (ep\<lparr>poller := p\<rparr>) rb)"
  using assms poll_ring_of [OF _ assms(2), of ep 2048] by (auto simp: endpoint_wf_def)

lemma rra_same [simp]:
  "get_rra_port (ep\<lparr>poller := p\<rparr>) = get_rra_port ep" "get_rra_handle (ep\<lparr>poller := p\<rparr>) = get_rra_handle ep"
  "get_rra_port (set_trace ep rb) = get_rra_port ep" "get_rra_handle (set_trace ep rb) = get_rra_handle ep"
  by (simp_all add: get_rra_port_def get_rra_handle_def)

lemma sound_endpoint_step:
  assumes "endpoint_step X s s'" and "endpoint_wf (fst s)"
    and "get_rra_port (fst s') = get_rra_port (fst s)" and "get_rra_handle (fst s') = get_rra_handle (fst s)"
  shows "sound_step s s'"
  using endpoint_system.keeps [OF assms(2,1)] endpoint_step_silent [OF assms(1,2)] assms(3,4)
  by (simp add: sound_step_def exchanged_nil)

lemma session_sound:
  assumes "session_step X stream engine s s'" and "endpoint_wf (fst (fst s))"
  shows "sound_step (fst s) (fst s')"
  using assms
proof (cases rule: session_step.cases)
  case (session_write cap w t ep)
  with assms(2) show ?thesis using endpoint_step.fpga_writes_trace [of X ep w]
    by (intro sound_endpoint_step [of X]) simp_all
next
  case (session_turn t k ks ep w p w')
  with assms(2) endpoint_step.polls [OF session_turn(4)] show ?thesis
    by (intro sound_endpoint_step [of X]) simp_all
next
  case (session_idle ep w w' t)
  with assms(2) endpoint_step.polls [OF session_idle(3)] show ?thesis
    by (intro sound_endpoint_step [of X]) simp_all
next
  case (session_poll t ep b rb p rest w)
  with poll_sound [OF _ session_poll(4)] assms(2) show ?thesis by (simp add: sound_step_def)
next
  case (session_throw t ep b rb p rest w)
  with poll_sound [OF _ session_throw(4)] assms(2) show ?thesis by (simp add: sound_step_def)
next
  case (session_word t ep w rb words w')
  with word_sound [OF _ session_word(5)] assms(2) show ?thesis by (simp add: sound_step_def)
next
  case (session_notify t ep w rb w')
  with notify_sound [OF _ session_notify(5)] assms(2) show ?thesis by (simp add: sound_step_def)
next
  case (session_access w' ep w t)
  with assms(2) endpoint_step.access [OF session_access(3)] show ?thesis
    by (intro sound_endpoint_step [of X]) simp_all
qed (simp_all add: sound_step_def)

text \<open>No step of the session starts the FPGA's trace ring anew.\<close>

lemma keeps_engine_call:
  "trace_fpga X ep regs latch rd_ok engine \<Longrightarrow> \<not> reconfigures ep c \<Longrightarrow> keeps engine (call X c)"
  by (intro keeps_call) (simp add: engine_after)

lemma keeps_engine_complete: "trace_fpga X ep regs latch rd_ok engine \<Longrightarrow> keeps engine (complete X E ep' a)"
  unfolding complete_def by (intro keeps_andthen keeps_throw_on_error keeps_engine_call) simp_all

lemma keeps_engine_poll:
  assumes "trace_fpga X ep regs latch rd_ok engine"
  shows "keeps engine (poll_once X s)"
  unfolding poll_once_def poll_fetch_def
  by (intro keeps_intros keeps_engine_call [OF assms])
    (auto split: prod.split option.split sum.split intro!: keeps_intros keeps_engine_call [OF assms])

lemma engine_ping_loop:
  assumes "trace_fpga X ep regs latch rd_ok engine"
  shows "engine (w_env (snd (ping_loop X port i t w))) = engine (w_env w)"
  by (induction i arbitrary: t w) (simp_all add: Let_def engine_after [OF assms])

lemma engine_access:
  assumes "trace_fpga X ep0 regs latch rd_ok engine"
    and "get_rra_port ep = get_rra_port ep0" and "get_rra_handle ep = get_rra_handle ep0"
    and "w' \<in> accesses X ep w" and "\<not> list_ex (\<lambda>(a, v). starts_trace a v) (writes (asked w w'))"
  shows "engine (w_env w') = engine (w_env w)"
proof -
  from assms(4) consider a where "w' = snd (rra_read X ep a w)" | a v where "w' = snd (rra_write X ep a v w)"
    | n where "w' = snd (rma_send X ep n w)" | i x where "w' = snd (write_send i x w)"
    | "w' = snd (ping X ep w)"
    by (auto simp: accesses_def)
  then show ?thesis
  proof cases
    case (1 a)
    have "keeps engine (rra_read X ep a)"
      unfolding rra_read_def read_response_def
      by (intro keeps_andthen keeps_throw_on_error keeps_engine_call [OF assms(1)] keeps_engine_complete [OF assms(1)])
        (simp_all add: keeps_def buffer_at_def)
    with 1 show ?thesis by (simp add: keeps_def)
  next
    case (2 a v)
    from rra.posts [of X ep a v w "fst (rra_write X ep a v w)" w'] 2 have "writes (asked w w') = [(a, v)]" by simp
    with assms(5) have "\<not> starts_trace a v" by simp
    then have "keeps engine (rra_write X ep a v)"
      unfolding rra_write_def
      by (intro keeps_andthen keeps_throw_on_error keeps_engine_call [OF assms(1)] keeps_engine_complete [OF assms(1)])
        simp
    with 2 show ?thesis by (simp add: keeps_def)
  next
    case (3 n)
    have "keeps engine (rma_send X ep n)"
      unfolding rma_send_def by (intro keeps_andthen keeps_throw_on_error keeps_engine_call [OF assms(1)]) simp
    with 3 show ?thesis by (simp add: keeps_def)
  next
    case (4 i x)
    then show ?thesis by (simp add: write_send_def buffer_put_def)
  next
    case 5
    then show ?thesis
      by (simp add: ping_def engine_ping_loop [OF assms(1)] engine_after [OF assms(1)] ping_request_def)
  qed
qed

lemma session_engine:
  assumes "trace_fpga X ep0 regs latch rd_ok engine" and "session_step X stream engine s s'"
    and "get_rra_port (fst (fst s)) = get_rra_port ep0" and "get_rra_handle (fst (fst s)) = get_rra_handle ep0"
  shows "engine (w_env (snd (fst s'))) = engine (w_env (snd (fst s)))"
proof -
  have polled: "engine (w_env w') = engine (w_env w)" if "poll_notifications X 1 p w = (r, w')" for p r w w'
  proof -
    from that have "w' = snd (poll_loop X 1 (1, p) w)"
      by (auto simp: poll_notifications_def split: prod.splits sum.splits)
    moreover have "keeps engine (poll_loop X 1 (1, p))"
      by (simp add: keeps_andthen keeps_engine_poll [OF assms(1)] keeps_ret)
    ultimately show ?thesis by (simp add: keeps_def)
  qed
  from assms(2) show ?thesis
  proof (cases rule: session_step.cases)
    case (session_word t ep w rb words w')
    then show ?thesis
      by (auto simp: receive_word_def notify_def notify_call_def Let_def engine_after [OF assms(1)] split: sum.splits if_splits)
  next
    case (session_notify t ep w rb w')
    then show ?thesis by (auto simp: notify_def notify_call_def engine_after [OF assms(1)])
  next
    case (session_access w' ep w t)
    then show ?thesis using engine_access [OF assms(1) _ _ session_access(3,4)] assms(3,4) by simp
  next
    case (session_turn t k ks ep w p w')
    with polled [OF session_turn(4)] show ?thesis by simp
  next
    case (session_idle ep w w' t)
    with polled [OF session_idle(3)] show ?thesis by simp
  qed simp_all
qed

subsection \<open>The link inside an endpoint\<close>

definition link_at :: "'e at_work \<Rightarrow> link" where
  "link_at s =
     \<lparr>ring = trace_ring_buffer (fst (fst s)), link.poller = poller (fst (fst s)), inflight = t_inflight (snd s),
      written = t_written (snd s), announced = t_announced (snd s), got = t_got (snd s),
      posted = t_posted (snd s), acked = t_acked (snd s)\<rparr>"

text \<open>
  What holds at every moment: the link's invariant with the FPGA's capacity, the type of the endpoint,
  and that a call that has returned has left nothing readable or unacknowledged.
\<close>

definition session_inv ::
  "(nat \<Rightarrow> u64) \<Rightarrow> ('e \<Rightarrow> u64 \<times> nat) \<Rightarrow> u64 \<times> nat \<Rightarrow> Endpoint \<Rightarrow> 'e world \<Rightarrow> 'e at_work \<Rightarrow> bool" where
  "session_inv stream engine E ep0 w0 s \<longleftrightarrow> link_inv stream (snd E) (link_at s)
     \<and> sound_step (ep0, w0) (fst s) \<and> engine (w_env (snd (fst s))) = E
     \<and> (t_phase (snd s) = Returned \<longrightarrow> m_readable_words (trace_ring_buffer (fst (fst s))) = 0
          \<and> m_read_words (trace_ring_buffer (fst (fst s))) = 0)"

lemma polled_fits:
  assumes "link_inv stream cap s" and "poll [] (ring s) (link.poller s) = Inr (b, rb, p, rest)"
  shows "m_readable_words rb \<le> vector_max_size"
proof -
  have "cap < 0x100000000" using assms(1) by (simp add: link_inv_def)
  moreover have "m_readable_words rb = m_readable_words (ring s) + m_packets (link.poller s)"
    using assms(2) by (auto simp: poll_def consume_packets_def)
  ultimately show ?thesis using link_inv_room [OF assms(1)]
    by (simp add: unat_u64_add word_le_nat_alt vector_max_size_def)
qed

lemma session_refines_link:
  assumes "link_inv stream (snd (engine (w_env (snd (fst s))))) (link_at s)" and "session_step X stream engine s s'"
  shows "(link_step X stream)\<^sup>=\<^sup>= (link_at s) (link_at s')"
  using assms(2)
proof (cases rule: session_step.cases)
  case (session_write cap w t ep)
  then have "unat (size_qw (ring (link_at s))) = cap" using assms(1) by (simp add: link_inv_def)
  with session_write link_step.fpga_write [of "link_at s" X stream] show ?thesis by (simp add: link_at_def)
next
  case (session_announce t k s1)
  with link_step.fpga_announce [of "link_at s" k X stream] show ?thesis by (simp add: link_at_def)
next
  case (session_ack t k s1)
  with link_step.fpga_sees_ack [of "link_at s" k X stream] show ?thesis by (simp add: link_at_def)
next
  case (session_turn t k ks ep w p w')
  with link_step.notification [of "link_at s" k ks p X stream] show ?thesis by (simp add: link_at_def)
next
  case (session_poll t ep b rb p rest w)
  with link_step.host_poll [of "link_at s" b rb p rest X stream] show ?thesis by (simp add: link_at_def)
next
  case (session_throw t ep b rb p rest w)
  with link_step.host_poll [of "link_at s" b rb p rest X stream] show ?thesis by (simp add: link_at_def)
next
  case (session_word t ep w rb words w')
  with link_step.host_word [of "link_at s" X w rb words w' stream] show ?thesis by (simp add: link_at_def)
next
  case (session_notify t ep w rb w')
  with link_step.host_notify [of X "link_at s" w rb w' stream] show ?thesis by (simp add: link_at_def)
qed (simp_all add: link_at_def)

lemma sound_step_trans: "sound_step s t \<Longrightarrow> sound_step t u \<Longrightarrow> sound_step s u"
  unfolding sound_step_def using released_nil_trans [of "snd s" "snd t" "snd u"] by simp

lemma session_inv_step:
  assumes "trace_fpga X ep0 regs latch rd_ok engine"
    and "session_inv stream engine E ep0 w0 s" and "session_step X stream engine s s'"
  shows "session_inv stream engine E ep0 w0 s'"
proof -
  from assms(2) have inv: "link_inv stream (snd E) (link_at s)" and sound: "sound_step (ep0, w0) (fst s)"
    and E: "engine (w_env (snd (fst s))) = E" by (simp_all add: session_inv_def)
  from sound have wf: "endpoint_wf (fst (fst s))" by (simp add: sound_step_def)
  have "link_inv stream (snd E) (link_at s')"
    using session_refines_link [of stream engine s X s'] inv E assms(3) link_system.keeps by auto
  moreover have "sound_step (ep0, w0) (fst s')"
    by (rule sound_step_trans [OF sound session_sound [OF assms(3) wf]])
  moreover have "engine (w_env (snd (fst s'))) = E"
    using session_engine [OF assms(1,3)] sound E by (simp add: sound_step_def)
  moreover have "t_phase (snd s') = Returned \<longrightarrow> m_readable_words (trace_ring_buffer (fst (fst s'))) = 0
      \<and> m_read_words (trace_ring_buffer (fst (fst s'))) = 0"
    using assms(3)
  proof (cases rule: session_step.cases)
    case (session_throw t ep b rb p rest w)
    with polled_fits [OF inv] show ?thesis by (simp add: link_at_def)
  next
    case (session_notify t ep w rb w')
    then show ?thesis by (auto simp: notify_def word_gt_0)
  qed (use assms(2) in \<open>auto simp: session_inv_def\<close>)
  ultimately show ?thesis by (simp add: session_inv_def)
qed

text \<open>An idle endpoint after a reset is an idle link.\<close>

lemma link_at_start:
  assumes "endpoint_wf ep" and "m_packets (poller ep) = 0"
  shows "link_inv stream 0x100000 (link_at ((reset_rings ep, w), no_traffic))"
proof -
  let ?rb = "trace_ring_buffer ep"
  have size: "unat (size_qw ?rb) = 0x100000" using assms(1) by (simp add: endpoint_wf_def ring_of_def)
  then have "link_inv stream (unat (size_qw ?rb)) (link_init ?rb (poller ep))"
    using assms(2) by (intro link_inv_init) (simp_all add: word_less_nat_alt)
  moreover have "link_at ((reset_rings ep, w), no_traffic) = link_init ?rb (poller ep)"
    by (simp add: link_at_def link_init_def no_traffic_def reset_rings_def)
  ultimately show ?thesis by (simp add: size)
qed

lemma configured_session_start:
  assumes "trace_fpga X ep regs latch rd_ok engine" and "rd_ok 0x8008"
    and "\<And>old v. latch 0x5000 old v = v" and "\<And>old v. latch 0x5008 old v = v"
    and "endpoint_wf ep" and "m_packets (poller ep) = 0" and "configure_fpga X (ep, w) = (r, s1)"
  shows "r = Inr () \<and> session_inv stream engine (asked_trace_nla X ep w, 0x100000) ep w (s1, no_traffic)"
proof -
  from default_engine [OF assms(1-5), of w] assms(7) obtain w1 where
    s1: "r = Inr ()" "s1 = (reset_rings ep, w1)" "engine (w_env w1) = (asked_trace_nla X ep w, 0x100000)" by auto
  have "sound_step (ep, w) s1"
    using endpoint_step.configure_default [OF assms(7)] assms(5) by (intro sound_endpoint_step) (simp_all add: s1(2))
  with s1 link_at_start [OF assms(5,6)] show ?thesis
    by (simp add: session_inv_def) (simp add: no_traffic_def reset_rings_def reset_def)
qed

subsection \<open>Property\<close>

text \<open>
  C3: an idle endpoint is configured with the defaults, on an FPGA that stores its start and size
  registers and takes them over when it is told to, and is then used: call after call of \<^verbatim>\<open>receive\<close> on
  the trace ring, interrupted at any point by the polling thread, by the FPGA and by register accesses,
  sends and pings, except writes that restart the trace ring. At every moment the words received are
  a prefix of the stream the FPGA sends; received, readable, counted and still announced words add up to
  what was announced; the FPGA is at most one ring ahead of the words acknowledged to it; between
  calls every word received has been acknowledged; the endpoint keeps the type of a live endpoint, and no
  resource is given back; and the FPGA still writes the ring at the address and with the size the
  configuration gave it.
\<close>

theorem configured_session_delivers:
  assumes "trace_fpga X ep regs latch rd_ok engine" and "rd_ok 0x8008"
    and "\<And>old v. latch 0x5000 old v = v" and "\<And>old v. latch 0x5008 old v = v"
    and "endpoint_wf ep" and "m_packets (poller ep) = 0"
    and "configure_fpga X (ep, w) = (r, s1)"
    and "(session_step X stream engine)\<^sup>*\<^sup>* (s1, no_traffic) ((ep', w'), t)"
  shows "r = Inr () \<and> t_got t = map stream [0..<length (t_got t)]
    \<and> length (t_got t) + unat (m_readable_words (trace_ring_buffer ep')) + unat (m_packets (poller ep'))
        + sum_list (t_inflight t) = t_announced t
    \<and> t_announced t \<le> t_written t \<and> t_written t \<le> t_posted t + 0x100000
    \<and> (t_phase t = Returned \<longrightarrow> t_posted t = length (t_got t))
    \<and> endpoint_wf ep' \<and> released w w' = []
    \<and> engine (w_env w') = (asked_trace_nla X ep w, 0x100000)"
proof -
  let ?E = "(asked_trace_nla X ep w, 0x100000)"
  from configured_session_start [OF assms(1-7), of stream] have
    start: "r = Inr ()" "session_inv stream engine ?E ep w (s1, no_traffic)" by simp_all
  from assms(8) start(2) have "session_inv stream engine ?E ep w ((ep', w'), t)"
    by (induction rule: rtranclp_induct) (auto intro: session_inv_step [OF assms(1)])
  with start(1) show ?thesis by (auto simp: session_inv_def link_inv_def link_at_def sound_step_def)
qed

text \<open>A session in which the FPGA sends one word and the client receives it.\<close>

lemma tracing_turn:
  "m_packets p = 0 \<Longrightarrow> \<exists>w'. poll_notifications tracing_ext 1 p w = (Inr (p\<lparr>m_packets := 1\<rparr>), w')"
  by (simp add: poll_notifications_def poll_once_def poll_fetch_def dispatch_def answer_eq tracing_ext_def fpga_reply_def)

lemma one_word_session:
  assumes "snd (snd (w_env w)) = 0x100000"
  shows "\<exists>ep' w' t. (session_step tracing_ext (\<lambda>i. 7) snd)\<^sup>*\<^sup>* ((reset_rings ep_live, w), no_traffic) ((ep', w'), t)
    \<and> t_got t = [7] \<and> t_phase t = Returned"
proof -
  let ?S = "session_step tracing_ext (\<lambda>i. 7) snd"
  define e0 where "e0 = reset_rings ep_live"
  define rb1 where "rb1 = (trace_ring_buffer e0)\<lparr>m_buffer := (m_buffer (trace_ring_buffer e0))(0 := 7)\<rparr>"
  define e1 where "e1 = set_trace e0 rb1"
  define e2 where "e2 = e1\<lparr>poller := (poller e1)\<lparr>m_packets := 1\<rparr>\<rparr>"
  define e3 where "e3 = set_trace e1 (rb1\<lparr>m_readable_words := 1\<rparr>)"
  define e4 where "e4 = set_trace e1 (advance (rb1\<lparr>m_readable_words := 1\<rparr>))"
  define t1 where "t1 = no_traffic\<lparr>t_written := 1\<rparr>"
  define t2 where "t2 = t1\<lparr>t_inflight := [1], t_announced := 1\<rparr>"
  define t3 where "t3 = t2\<lparr>t_inflight := []\<rparr>"
  define t4 where "t4 = t3\<lparr>t_phase := Called\<rparr>"
  define t5 where "t5 = t3\<lparr>t_phase := Looping\<rparr>"
  define t6 where "t6 = t5\<lparr>t_got := [7]\<rparr>"
  note d = rb1_def e1_def e2_def e3_def e4_def t1_def t2_def t3_def t4_def t5_def t6_def no_traffic_def
  have "endpoint_wf e0" and empty: "m_packets (poller e1) = 0"
    using endpoint_wf_reset [OF ep_live_wf(1)] ep_live_wf(2) by (simp_all add: d e0_def reset_rings_def)
  then have wf: "ring_wf (rb1\<lparr>m_readable_words := 1\<rparr>)" "rb1 = trace_ring_buffer e1"
    by (simp_all add: d endpoint_wf_def ring_of_def ring_wf_def)
  have zero: "m_readable_words rb1 = 0" "m_read_index rb1 = 0" "m_read_words rb1 = 0"
    by (simp_all add: rb1_def e0_def reset_rings_def reset_def)
  have 1: "?S ((e0, w), no_traffic) ((e1, w), t1)"
    using session_step.session_write [of "0x100000" snd w no_traffic tracing_ext "\<lambda>i. 7" e0] assms by (simp add: d)
  have 2: "?S ((e1, w), t1) ((e1, w), t2)"
    using session_step.session_announce [of t1 1 tracing_ext "\<lambda>i. 7" snd "(e1, w)"] by (simp add: d)
  from tracing_turn [OF empty, of w] obtain v where
    turn: "poll_notifications tracing_ext 1 (poller e1) w = (Inr ((poller e1)\<lparr>m_packets := 1\<rparr>), v)" by blast
  have 3: "?S ((e1, w), t2) ((e2, v), t3)"
    using session_step.session_turn [OF _ turn, of t2 1 "[]" "\<lambda>i. 7" snd] empty by (simp add: d dispatch_def)
  have 4: "?S ((e2, v), t3) ((e2, v), t4)"
    using session_step.session_call [of t3 tracing_ext "\<lambda>i. 7" snd "(e2, v)"] by (simp add: d)
  have "poll [] (trace_ring_buffer e2) (poller e2) = Inr (True, rb1\<lparr>m_readable_words := 1\<rparr>, poller e1, [])"
    using empty zero by (simp add: poll_def consume_packets_def e2_def e1_def)
  from session_step.session_poll [OF _ this, of t4 tracing_ext "\<lambda>i. 7" snd v]
  have 5: "?S ((e2, v), t4) ((e3, v), t5)" by (simp add: d vector_max_size_def)
  have "receive_word tracing_ext (trace_ring_buffer e3, t_got t5, v)
      = Inr (advance (rb1\<lparr>m_readable_words := 1\<rparr>), [7], v)"
    using receive_word_eq [OF wf(1), of tracing_ext "[]" v] zero
    by (simp add: e3_def t5_def t3_def t2_def t1_def no_traffic_def num_words_to_notify_def) (simp add: rb1_def)
  from session_step.session_word [OF _ _ this, of "\<lambda>i. 7" snd]
  have 6: "?S ((e3, v), t5) ((e4, v), t6)" by (simp add: d)
  obtain rb2 v2 where noti: "notify tracing_ext (trace_ring_buffer e4) v = (rb2, v2)" by fastforce
  have "\<not> m_readable_words (trace_ring_buffer e4) > 0" by (simp add: e4_def)
  note 7 = session_step.session_notify [OF _ this noti, of t6 "\<lambda>i. 7" snd]
  show ?thesis
    using run_step [OF run_step [OF run_step [OF run_step [OF run_step [OF run_step
        [OF r_into_rtranclp [of ?S, OF 1] 2] 3] 4] 5] 6] 7]
    by (intro exI conjI) (auto simp: e0_def d)
qed

theorem configured_session_delivers_witness:
  "\<exists>w1 ep' w' t. configure_fpga tracing_ext (ep_live, tracing_world) = (Inr (), (reset_rings ep_live, w1))
    \<and> (session_step tracing_ext (\<lambda>i. 7) snd)\<^sup>*\<^sup>* ((reset_rings ep_live, w1), no_traffic) ((ep', w'), t)
    \<and> t_got t = [7] \<and> t_posted t = 1 \<and> 1 \<le> t_written t \<and> endpoint_wf ep'"
proof -
  note dev = tracing_ext_device [of "\<lambda>a. a \<notin> {0x5020, 0x50a0}"]
  have ok: "(\<lambda>a. a \<notin> {0x5020, 0x50a0}) (0x8008 :: u64)" by simp
  from default_engine [OF dev ok refl refl ep_live_wf(1), of tracing_world] obtain w1 where
    1: "configure_fpga tracing_ext (ep_live, tracing_world) = (Inr (), (reset_rings ep_live, w1))"
      "snd (snd (w_env w1)) = 0x100000" by auto
  from one_word_session [OF 1(2)] obtain ep' w' t where
    2: "(session_step tracing_ext (\<lambda>i. 7) snd)\<^sup>*\<^sup>* ((reset_rings ep_live, w1), no_traffic) ((ep', w'), t)"
      "t_got t = [7]" "t_phase t = Returned" by blast
  from configured_session_delivers [OF dev ok refl refl ep_live_wf 1(1) 2(1)] 2(2,3)
  have "t_posted t = 1" "1 \<le> t_written t" "endpoint_wf ep'" by auto
  with 1(1) 2(1,2) show ?thesis by blast
qed

end
