(* ===== verification/Rra_Queue.thy ===== *)
theory Rra_Queue
  imports Configure_Fpga
begin

text \<open>
  Register reads and their answers. The FPGA answers the transactions on a port in order, and the
  answer to a read is written into the one response word and announced by a notification; the code
  takes the next notification as the answer to what it asked last. This theory describes such an
  FPGA with the answers that are still outstanding, and shows when reads return the right register
  and what happens once one answer is left over, as after a ping that gave up.
\<close>

subsection \<open>An FPGA that answers in order\<close>

text \<open>
  \<open>outstanding\<close> are the answers on their way: the value for a read, nothing for a write. Waiting for
  a notification delivers the oldest; a probe may find nothing yet. \<open>latch\<close> is what a register keeps of
  a value written. \<open>seen\<close> is what the FPGA answers to a read: the register, where \<open>rd_ok\<close> says that the
  address is readable; elsewhere \<^verbatim>\<open>connection.h\<close> documents the data of the last readable location
  accessed, and nothing is assumed of it.
\<close>

fun fifo_regs ::
  "Endpoint \<Rightarrow> (u64 \<Rightarrow> u64 \<Rightarrow> u64 \<Rightarrow> u64) \<Rightarrow> ext_call \<Rightarrow> (u64 \<Rightarrow> u64) \<Rightarrow> u64 \<Rightarrow> u64" where
  "fifo_regs ep latch (rma2_post_immediate_put port handle n v a spec) R =
     (if port = get_rra_port ep then latch_store latch a v R else R)"
| "fifo_regs ep latch _ R = R"

fun fifo_answers :: "Endpoint \<Rightarrow> ext_call \<Rightarrow> (u64 \<Rightarrow> u64) \<Rightarrow> u64 option list \<Rightarrow> u64 option list" where
  "fifo_answers ep (rma2_post_get_qw_direct port handle dest n a spec) S os =
     (if port = get_rra_port ep then os @ [Some (S a)] else os)"
| "fifo_answers ep (rma2_post_immediate_put port handle n v a spec) S os =
     (if port = get_rra_port ep then os @ [None] else os)"
| "fifo_answers ep (rma2_noti_get_block port) S os = (if port = get_rra_port ep then tl os else os)"
| "fifo_answers ep _ S os = os"

fun fifo_response :: "Endpoint \<Rightarrow> ext_call \<Rightarrow> u64 option list \<Rightarrow> u64 \<Rightarrow> u64" where
  "fifo_response ep (rma2_noti_get_block port) os x =
     (if port = get_rra_port ep then (case os of Some y # _ \<Rightarrow> y | _ \<Rightarrow> x) else x)"
| "fifo_response ep _ os x = x"

fun fifo_accepts :: "Endpoint \<Rightarrow> ext_call \<Rightarrow> u64 option list \<Rightarrow> bool" where
  "fifo_accepts ep (rma2_noti_get_block port) os = (port = get_rra_port ep \<and> os \<noteq> [])"
| "fifo_accepts ep c os = rra_call ep c"

definition fifo_fpga ::
  "'e ext \<Rightarrow> Endpoint \<Rightarrow> ('e \<Rightarrow> u64 \<Rightarrow> u64) \<Rightarrow> (u64 \<Rightarrow> u64 \<Rightarrow> u64 \<Rightarrow> u64) \<Rightarrow> (u64 \<Rightarrow> bool)
   \<Rightarrow> ('e \<Rightarrow> u64 \<Rightarrow> u64) \<Rightarrow> ('e \<Rightarrow> u64 option list) \<Rightarrow> bool" where
  "fifo_fpga X ep regs latch rd_ok seen outstanding \<longleftrightarrow> (\<forall>e a. rd_ok a \<longrightarrow> seen e a = regs e a) \<and> (\<forall>c e m.
     (fifo_accepts ep c (outstanding e) \<longrightarrow> r_status (fst (X c e m)) = RMA2_SUCCESS)
     \<and> (c \<noteq> rma2_noti_probe (get_rra_port ep) \<or> r_status (fst (X c e m)) = RMA2_NO_NOTI \<longrightarrow>
          regs (fst (snd (X c e m))) = fifo_regs ep latch c (regs e)
        \<and> outstanding (fst (snd (X c e m))) = fifo_answers ep c (seen e) (outstanding e)
        \<and> snd (snd (X c e m)) 0 = fifo_response ep c (outstanding e) (m 0)))"

lemma fifo_seen: "fifo_fpga X ep regs latch rd_ok seen outstanding \<Longrightarrow> rd_ok a \<Longrightarrow> seen e a = regs e a"
  by (simp add: fifo_fpga_def)

lemma fifo_status:
  "fifo_fpga X ep regs latch rd_ok seen outstanding \<Longrightarrow> fifo_accepts ep c (outstanding (w_env w)) \<Longrightarrow>
   r_status (answer X c w) = RMA2_SUCCESS"
  unfolding fifo_fpga_def answer_eq by blast

lemma fifo_step:
  assumes "fifo_fpga X ep regs latch rd_ok seen outstanding"
    and "c \<noteq> rma2_noti_probe (get_rra_port ep) \<or> r_status (answer X c w) = RMA2_NO_NOTI"
  shows "regs (w_env (after X c w)) = fifo_regs ep latch c (regs (w_env w))"
    and "outstanding (w_env (after X c w)) = fifo_answers ep c (seen (w_env w)) (outstanding (w_env w))"
    and "w_mem (after X c w) 0 = fifo_response ep c (outstanding (w_env w)) (w_mem w 0)"
  using assms unfolding fifo_fpga_def answer_eq w_env_after w_mem_after by blast+

subsection \<open>One transaction\<close>

text \<open>
  A read of a readable address returns the oldest outstanding answer, its own only when there was no
  other.
\<close>

lemma fifo_read:
  assumes "fifo_fpga X ep regs latch rd_ok seen outstanding"
    and "rd_ok a" and "outstanding (w_env w) @ [Some (regs (w_env w) a)] = Some x # rest"
  shows "\<exists>w'. rra_read X ep a w = (Inr x, w') \<and> regs (w_env w') = regs (w_env w) \<and> outstanding (w_env w') = rest"
  using assms(3)
  by (simp add: rra_read_def complete_def rra_call_def fifo_status [OF assms(1)] fifo_step [OF assms(1)]
      fifo_seen [OF assms(1,2)])

lemma fifo_write:
  assumes "fifo_fpga X ep regs latch rd_ok seen outstanding"
    and "outstanding (w_env w) @ [None] = r # rest"
  shows "\<exists>w'. rra_write X ep a v w = (Inr (), w') \<and> regs (w_env w') = latch_store latch a v (regs (w_env w))
    \<and> outstanding (w_env w') = rest"
  using assms(2)
  by (simp add: rra_write_def complete_def rra_call_def fifo_status [OF assms(1)] fifo_step [OF assms(1)])

text \<open>A ping that gives up has posted its read, and the answer is outstanding.\<close>

lemma fifo_ping_gives_up:
  assumes "fifo_fpga X ep regs latch rd_ok seen outstanding" and "rd_ok 0x8000" and "ping X ep w = (False, w')"
  shows "regs (w_env w') = regs (w_env w)
    \<and> outstanding (w_env w') = outstanding (w_env w) @ [Some (regs (w_env w) 0x8000)]"
proof -
  have loop: "ping_loop X (get_rra_port ep) i t v = (False, w') \<Longrightarrow>
      regs (w_env w') = regs (w_env v) \<and> outstanding (w_env w') = outstanding (w_env v)" for i t v
  proof (induction i arbitrary: t v)
    case (Suc i)
    let ?v1 = "after X (rma2_noti_probe (get_rra_port ep)) v"
    from Suc.prems have none: "r_status (answer X (rma2_noti_probe (get_rra_port ep)) v) = RMA2_NO_NOTI"
      and rest: "ping_loop X (get_rra_port ep) i (t * 2) (after X (sleep_us t) ?v1) = (False, w')"
      by (auto simp: Let_def split: if_splits)
    from Suc.IH [OF rest] none show ?case by (simp add: fifo_step [OF assms(1)])
  qed simp
  from assms(3) have "ping_loop X (get_rra_port ep) 20 10 (after X (ping_request ep) w) = (False, w')"
    by (simp add: ping_def)
  from loop [OF this] show ?thesis
    by (simp add: fifo_step [OF assms(1)] ping_request_def fifo_seen [OF assms(1,2)])
qed

subsection \<open>Many reads\<close>

fun read_all :: "'e ext \<Rightarrow> Endpoint \<Rightarrow> u64 list \<Rightarrow> ('e world, failure, u64 list) comp" where
  "read_all X ep [] = ret []"
| "read_all X ep (a # as) =
     andthen (rra_read X ep a) (\<lambda>x. andthen (read_all X ep as) (\<lambda>xs. ret (x # xs)))"

lemma fifo_read_all:
  assumes "fifo_fpga X ep regs latch rd_ok seen outstanding" and "outstanding (w_env w) = map Some os"
    and "list_all rd_ok as"
  shows "\<exists>w'. read_all X ep as w = (Inr (take (length as) (os @ map (regs (w_env w)) as)), w')
    \<and> regs (w_env w') = regs (w_env w)
    \<and> outstanding (w_env w') = map Some (drop (length as) (os @ map (regs (w_env w)) as))"
  using assms(2,3)
proof (induction as arbitrary: os w)
  case Nil
  then show ?case by simp
next
  case (Cons a as)
  let ?R = "regs (w_env w)"
  obtain x rest where x: "os @ [?R a] = x # rest" by (cases "os @ [?R a]") auto
  from Cons.prems(2) have ok: "rd_ok a" "list_all rd_ok as" by simp_all
  have "map Some (os @ [?R a]) = map Some (x # rest)" by (simp only: x)
  then have "outstanding (w_env w) @ [Some (?R a)] = Some x # map Some rest"
    using Cons.prems(1) by simp
  from fifo_read [OF assms(1) ok(1) this] obtain w1 where
    w1: "rra_read X ep a w = (Inr x, w1)" "regs (w_env w1) = ?R" "outstanding (w_env w1) = map Some rest"
    by blast
  from Cons.IH [OF w1(3) ok(2)] obtain w2 where
    w2: "read_all X ep as w1 = (Inr (take (length as) (rest @ map ?R as)), w2)"
      "regs (w_env w2) = ?R" "outstanding (w_env w2) = map Some (drop (length as) (rest @ map ?R as))"
    unfolding w1(2) by blast
  have eq: "os @ map ?R (a # as) = x # rest @ map ?R as"
    using x by (metis append_Cons append_assoc append_Nil list.map(2))
  from w1(1) w2 show ?case
    unfolding eq by (simp add: andthen_def del: take_append drop_append)
qed

subsection \<open>Properties of register reads in sequence\<close>


text \<open>A concrete FPGA that is slower than the ping; the two counter resets are not readable.\<close>

definition demo_ok :: "u64 \<Rightarrow> bool" where
  "demo_ok a \<longleftrightarrow> a \<notin> {0x5020, 0x50a0}"

definition demo_seen :: "(u64 \<Rightarrow> u64) \<Rightarrow> u64 \<Rightarrow> u64" where
  "demo_seen R a = (if demo_ok a then R a else 0xbad)"

fun slow_ext :: "((u64 \<Rightarrow> u64) \<times> u64 option list) ext" where
  "slow_ext (rma2_noti_probe port) (R, os) m =
     (\<lparr>r_status = RMA2_NO_NOTI, r_ret = 0, r_out = 0\<rparr>, (R, os), m)"
| "slow_ext c (R, os) m =
     (\<lparr>r_status = RMA2_SUCCESS, r_ret = 0, r_out = 0\<rparr>,
      (fifo_regs ep7 (\<lambda>a old v. v) c R, fifo_answers ep7 c (demo_seen R) os), m(0 := fifo_response ep7 c os (m 0)))"

lemma slow_ext_fifo: "fifo_fpga slow_ext ep7 fst (\<lambda>a old v. v) demo_ok (\<lambda>e. demo_seen (fst e)) snd"
  unfolding fifo_fpga_def
proof (rule conjI, simp add: demo_seen_def, intro allI)
  fix c and e :: "(u64 \<Rightarrow> u64) \<times> u64 option list" and m
  obtain R os where e: "e = (R, os)" by (cases e)
  show "(fifo_accepts ep7 c (snd e) \<longrightarrow> r_status (fst (slow_ext c e m)) = RMA2_SUCCESS)
     \<and> (c \<noteq> rma2_noti_probe (get_rra_port ep7) \<or> r_status (fst (slow_ext c e m)) = RMA2_NO_NOTI \<longrightarrow>
          fst (fst (snd (slow_ext c e m))) = fifo_regs ep7 (\<lambda>a old v. v) c (fst e)
        \<and> snd (fst (snd (slow_ext c e m))) = fifo_answers ep7 c (demo_seen (fst e)) (snd e)
        \<and> snd (snd (slow_ext c e m)) 0 = fifo_response ep7 c (snd e) (m 0))"
    unfolding e by (cases c) (simp_all add: rra_call_def)
qed

definition slow_world :: "((u64 \<Rightarrow> u64) \<times> u64 option list) world" where
  "slow_world = \<lparr>w_env = (\<lambda>a. if a = 0x8000 then 0xcafebabe else a, []), w_mem = (\<lambda>_. 0), w_log = []\<rparr>"

lemma slow_ping: "\<exists>v'. ping slow_ext ep7 slow_world = (False, v')"
proof -
  have "r_status (answer slow_ext (rma2_noti_probe port) v) = RMA2_NO_NOTI" for port v
    by (cases "w_env v") (simp add: answer_def ask_def)
  then have "fst (ping_loop slow_ext port i t v) = False" for port i t v
    by (induction i arbitrary: t v) (simp_all add: Let_def)
  then show ?thesis unfolding ping_def by (metis prod.collapse)
qed


end
