(* ===== verification/Rra_Session.thy ===== *)
theory Rra_Session
  imports Rra_Queue Client_Use
begin

text \<open>
  Construction, configuration and register reads on an FPGA that answers in order. The ping of the
  constructor is a read like any other whose answer is taken by a probe; a ping that is answered
  leaves nothing outstanding, so that the session that follows is in step with the FPGA: every write
  arrives and every read returns the register asked for.
\<close>

subsection \<open>Probes that are answered\<close>

text \<open>
  What librma2 documents of a probe: it finds the oldest notification or says that there is none.
  A probe that fails otherwise is left out; \<^verbatim>\<open>ping\<close> would take it for an answer.
\<close>

definition probe_answers ::
  "'e ext \<Rightarrow> Endpoint \<Rightarrow> ('e \<Rightarrow> u64 \<Rightarrow> u64) \<Rightarrow> ('e \<Rightarrow> u64 option list) \<Rightarrow> bool" where
  "probe_answers X ep regs outstanding \<longleftrightarrow> (\<forall>e m. case X (rma2_noti_probe (get_rra_port ep)) e m of
     (r, e', m') \<Rightarrow> r_status r = RMA2_NO_NOTI
       \<or> r_status r = RMA2_SUCCESS \<and> outstanding e \<noteq> [] \<and> regs e' = regs e
         \<and> outstanding e' = tl (outstanding e))"

lemma probe_answersD:
  assumes "probe_answers X ep regs outstanding"
    and "r_status (answer X (rma2_noti_probe (get_rra_port ep)) w) \<noteq> RMA2_NO_NOTI"
  shows "regs (w_env (after X (rma2_noti_probe (get_rra_port ep)) w)) = regs (w_env w)"
    and "outstanding (w_env (after X (rma2_noti_probe (get_rra_port ep)) w)) = tl (outstanding (w_env w))"
  using assms unfolding probe_answers_def answer_eq w_env_after
  by (fastforce simp: case_prod_unfold)+

lemma fifo_ping_answered:
  assumes "fifo_fpga X ep regs latch rd_ok seen outstanding" and "probe_answers X ep regs outstanding"
    and "ping X ep w = (True, w')" and "outstanding (w_env w) = []"
  shows "regs (w_env w') = regs (w_env w) \<and> outstanding (w_env w') = []"
proof -
  have loop: "ping_loop X (get_rra_port ep) i t v = (True, w') \<Longrightarrow>
      regs (w_env w') = regs (w_env v) \<and> outstanding (w_env w') = tl (outstanding (w_env v))" for i t v
  proof (induction i arbitrary: t v)
    case (Suc i)
    let ?probe = "rma2_noti_probe (get_rra_port ep)"
    show ?case
    proof (cases "r_status (answer X ?probe v) = RMA2_NO_NOTI")
      case True
      with Suc.prems have "ping_loop X (get_rra_port ep) i (t * 2) (after X (sleep_us t) (after X ?probe v)) = (True, w')"
        by (simp add: Let_def)
      from Suc.IH [OF this] True show ?thesis by (simp add: fifo_step [OF assms(1)])
    next
      case False
      with Suc.prems probe_answersD [OF assms(2) False] show ?thesis
        by (auto simp: Let_def fifo_step [OF assms(1)])
    qed
  qed simp
  from assms(3) have "ping_loop X (get_rra_port ep) 20 10 (after X (ping_request ep) w) = (True, w')"
    by (simp add: ping_def)
  from loop [OF this] assms(4) show ?thesis by (simp add: fifo_step [OF assms(1)] ping_request_def)
qed

subsection \<open>The constructors leave the register connection alone\<close>

lemma keeps_fifo_call:
  assumes "fifo_fpga X ep regs latch rd_ok seen outstanding" and "c \<noteq> rma2_noti_probe (get_rra_port ep)"
    and "\<And>R. fifo_regs ep latch c R = R" and "\<And>S os. fifo_answers ep c S os = os"
  shows "keeps (\<lambda>e. (regs e, outstanding e)) (call X c)"
  using assms(2-4) by (intro keeps_call) (simp add: fifo_step [OF assms(1)])

lemma keeps_constructors:
  assumes "fifo_fpga X ep regs latch rd_ok seen outstanding"
  shows "keeps (\<lambda>e. (regs e, outstanding e)) (Connection_new X node rra)"
    and "keeps (\<lambda>e. (regs e, outstanding e)) (PhysicalBuffer_new X)"
    and "keeps (\<lambda>e. (regs e, outstanding e)) (RingBuffer_new X port handle npages contents)"
  unfolding Connection_new_def PhysicalBuffer_new_def RingBuffer_new_def throw_if_negative_def Let_def
  by (intro keeps_andthen keeps_throw_on_error keeps_if keeps_ret keeps_fail keeps_fifo_call [OF assms]; simp)+

lemma built_keeps:
  assumes "fifo_fpga X ep regs latch rd_ok seen outstanding" and "built X tc hc n w ep' 0 v"
  shows "(regs (w_env v), outstanding (w_env v)) = (regs (w_env w), outstanding (w_env w))"
  using assms(2) unfolding built_def case_result
  by (auto dest!: keepsD [OF keeps_constructors(1) [OF assms(1)]]
      keepsD [OF keeps_constructors(2) [OF assms(1)]] keepsD [OF keeps_constructors(3) [OF assms(1)]])

lemma fifo_constructed:
  assumes "fifo_fpga X ep regs latch rd_ok seen outstanding" and "probe_answers X ep regs outstanding"
    and "Endpoint_new X ts hs tc hc n w = Some (Inr ep, (p, w'))" and "outstanding (w_env w) = []"
  shows "regs (w_env w') = regs (w_env w) \<and> outstanding (w_env w') = [] \<and> get_node ep = n"
proof -
  from Endpoint_new_pinged [OF assms(3)] obtain v where
    v: "built X tc hc n w ep 0 v" "ping X ep v = (True, w')" "get_node ep = n" by blast
  from built_keeps [OF assms(1) v(1)] assms(4) fifo_ping_answered [OF assms(1,2) v(2)] v(3)
  show ?thesis by simp
qed

subsection \<open>A session in step with the FPGA\<close>

text \<open>The FPGA is live for the configuration as long as nothing is outstanding.\<close>

definition in_step ::
 "'e ext \<Rightarrow> Endpoint \<Rightarrow> ('e \<Rightarrow> u64 \<Rightarrow> u64) \<Rightarrow> (u64 \<Rightarrow> u64 \<Rightarrow> u64 \<Rightarrow> u64) \<Rightarrow> (u64 \<Rightarrow> bool)
   \<Rightarrow> ('e \<Rightarrow> u64 \<Rightarrow> u64) \<Rightarrow> ('e \<Rightarrow> u64 option list) \<Rightarrow> 'e world \<Rightarrow> bool" where
  "in_step X ep regs latch rd_ok seen outstanding w \<longleftrightarrow> rd_ok 0x8008 \<and> fifo_fpga X ep regs latch rd_ok seen outstanding \<and> outstanding (w_env w) = []"

lemma in_step_read:
  assumes "in_step X ep regs latch rd_ok seen outstanding w" and "rd_ok a"
  shows "\<exists>w'. rra_read X ep a w = (Inr (regs (w_env w) a), w') \<and> regs (w_env w') = regs (w_env w)
    \<and> in_step X ep regs latch rd_ok seen outstanding w'"
  using fifo_read [of X ep regs latch rd_ok seen outstanding a w] assms by (auto simp: in_step_def)

lemma in_step_write:
  assumes "in_step X ep regs latch rd_ok seen outstanding w"
  shows "\<exists>w'. rra_write X ep a v w = (Inr (), w') \<and> regs (w_env w') = latch_store latch a v (regs (w_env w))
    \<and> in_step X ep regs latch rd_ok seen outstanding w'"
  using fifo_write [of X ep regs latch rd_ok seen outstanding w] assms by (auto simp: in_step_def)

interpretation fifo: configured_device X ep regs "latch_store latch" "\<lambda>R. R" rd_ok
    "in_step X ep regs latch rd_ok seen outstanding"
  for X ep regs latch rd_ok seen outstanding
  by unfold_locales
    (rule in_step_write, assumption, rule in_step_read, assumption+, rule rra_dev.others, assumption,
      simp add: in_step_def)

lemma read_all_reset_rings [simp]: "read_all X (reset_rings ep) as = read_all X ep as"
  by (induction as) simp_all

subsection \<open>Properties of a session\<close>


text \<open>A concrete FPGA that has answered by the time of the first probe.\<close>

fun prompt_ext :: "((u64 \<Rightarrow> u64) \<times> u64 option list) ext" where
  "prompt_ext (rma2_noti_probe port) (R, os) m =
     (if os = [] \<or> port \<noteq> 7 then (\<lparr>r_status = RMA2_NO_NOTI, r_ret = 4096, r_out = 7\<rparr>, (R, os), m)
      else (\<lparr>r_status = RMA2_SUCCESS, r_ret = 4096, r_out = 7\<rparr>, (R, tl os), m))"
| "prompt_ext c (R, os) m =
     (\<lparr>r_status = RMA2_SUCCESS, r_ret = 4096, r_out = 7\<rparr>,
      (fifo_regs ep_session (\<lambda>a old v. v) c R, fifo_answers ep_session c (demo_seen R) os),
      m(0 := fifo_response ep_session c os (m 0)))"

lemma ep_session_port [simp]: "get_rra_port ep_session = 7"
  by (simp add: get_rra_port_def get_port_def ep_session_def)

lemma prompt_ext_fifo:
  "fifo_fpga prompt_ext ep_session fst (\<lambda>a old v. v) demo_ok (\<lambda>e. demo_seen (fst e)) snd"
  unfolding fifo_fpga_def
proof (rule conjI, simp add: demo_seen_def, intro allI)
  fix c and e :: "(u64 \<Rightarrow> u64) \<times> u64 option list" and m
  obtain R os where e: "e = (R, os)" by (cases e)
  show "(fifo_accepts ep_session c (snd e) \<longrightarrow> r_status (fst (prompt_ext c e m)) = RMA2_SUCCESS)
     \<and> (c \<noteq> rma2_noti_probe (get_rra_port ep_session) \<or> r_status (fst (prompt_ext c e m)) = RMA2_NO_NOTI \<longrightarrow>
          fst (fst (snd (prompt_ext c e m))) = fifo_regs ep_session (\<lambda>a old v. v) c (fst e)
        \<and> snd (fst (snd (prompt_ext c e m))) = fifo_answers ep_session c (demo_seen (fst e)) (snd e)
        \<and> snd (snd (prompt_ext c e m)) 0 = fifo_response ep_session c (snd e) (m 0))"
    unfolding e by (cases c) (auto simp: rra_call_def)
qed


lemma prompt_ext_probe: "probe_answers prompt_ext ep_session fst snd"
  unfolding probe_answers_def by (auto simp: case_prod_unfold)

lemma prompt_body:
  assumes "snd (w_env w) = []" and "get_rra_port ep = 7"
  shows "\<exists>w'. Endpoint_body prompt_ext ts hs ep (p, w) = Some (Inr ep, (p, w'))"
proof -
  let ?v = "after prompt_ext (ping_request ep) w"
  have "snd (w_env ?v) \<noteq> []"
    by (simp add: assms ping_request_def fifo_step [OF prompt_ext_fifo])
  then have "r_status (answer prompt_ext (rma2_noti_probe 7) ?v) = RMA2_SUCCESS"
    by (cases "w_env ?v") (simp add: answer_eq)
  then show ?thesis by (simp add: Endpoint_body_def ping_def assms(2) numeral_eq_Suc Let_def)
qed

lemma prompt_new:
  "\<exists>w1. Endpoint_new prompt_ext (\<lambda>i. []) (\<lambda>i. []) (\<lambda>_. 0) (\<lambda>_. 0) 2 slow_world
     = Some (Inr ep_session, (NotificationPoller_new 7, w1))"
  by (simp add: idle_simps slow_world_def ep_session_def)
    (unfold Let_def, rule prompt_body, simp_all add: get_rra_port_def get_port_def)


end
