(* ===== verification/Ownership.thy ===== *)
theory Ownership
  imports Endpoint_States
begin

text \<open>
  What the constructors acquire, from the calls they make and the answers they get, beside what the
  destructors give back. Every member gives back what its constructor acquired, the last first, with
  one exception: the file descriptor of the pmap device.
\<close>

subsection \<open>A run of calls and what it acquires\<close>

definition gains :: "'e ext \<Rightarrow> 'e world \<Rightarrow> 'e world \<Rightarrow> resource list \<Rightarrow> bool" where
  "gains X w w' rs \<longleftrightarrow> extends w w' \<and> replay X w (asked w w') = w' \<and> acquired X w (asked w w') = rs"

lemma gains_trans:
  assumes "gains X u v rs" and "gains X v w ss"
  shows "gains X u w (rs @ ss)"
proof -
  from assms have uv: "extends u v" "extends v w" by (simp_all add: gains_def)
  from assms asked_trans [OF uv] extends_trans [OF uv] show ?thesis
    by (simp add: gains_def acquired_append)
qed

lemma gains_nothing_more:
  assumes "gains X u v rs" and "extends v w" and "filter is_acquire (asked v w) = []"
  shows "extends u w \<and> acquired X u (asked u w) = rs"
proof -
  from assms(1) have uv: "extends u v" by (simp add: gains_def)
  from assms asked_trans [OF uv assms(2)] extends_trans [OF uv assms(2)] show ?thesis
    by (simp add: gains_def acquired_append acquired_none)
qed

subsection \<open>The members\<close>

lemma Connection_new_gains:
  assumes "Connection_new X n rra w = (Inr c, w')"
  shows "gains X w w' (rev (given_back (conn_releases c)))"
  using assms
  by (auto simp: Connection_new_def throw_on_error_def gains_def asked_def extends_def given_back_def
      conn_releases_def split: if_splits)

lemma PhysicalBuffer_new_gains:
  assumes "PhysicalBuffer_new X w = (Inr b, w')"
  shows "\<exists>fd. gains X w w' (Pmap_fd fd # rev (given_back (buffer_releases b)))"
  using assms
  by (auto simp: PhysicalBuffer_new_def throw_if_negative_def gains_def asked_def extends_def given_back_def
      buffer_releases_def MAP_FAILED_def pages_def page_size_bt_def split: if_splits)

lemma RingBuffer_new_gains:
  assumes "RingBuffer_new X port handle npages contents w = (Inr rb, w')"
  shows "gains X w w' (rev (given_back (ring_releases rb)))"
  using assms
  by (auto simp: RingBuffer_new_def throw_on_error_def gains_def asked_def extends_def given_back_def
      ring_releases_def Let_def split: if_splits)

subsection \<open>The endpoint\<close>

fun is_pmap_fd :: "resource \<Rightarrow> bool" where
  "is_pmap_fd (Pmap_fd fd) = True"
| "is_pmap_fd _ = False"

text \<open>A life that acquired \<open>rs\<close>: all of it is given back, the last first, but for one descriptor.\<close>

definition all_but_one_descriptor :: "resource list \<Rightarrow> resource list \<Rightarrow> bool" where
  "all_but_one_descriptor rs back \<longleftrightarrow> back = rev (filter (\<lambda>r. \<not> is_pmap_fd r) rs)
     \<and> length (filter is_pmap_fd rs) = 1"

lemma Endpoint_new_gains:
  assumes "Endpoint_new X ts hs tc hc n w = Some (Inr ep, (p, w'))"
  shows "extends w w' \<and> (\<exists>v rs. gains X w v rs \<and> extends v w' \<and> filter is_acquire (asked v w') = []
    \<and> all_but_one_descriptor rs (given_back (concat (Endpoint_releases ep))))"
proof -
  from Endpoint_new_pinged [OF assms] obtain v where v: "built X tc hc n w ep 0 v" "ping X ep v = (True, w')"
    by blast
  from v(1) obtain w1 w2 w3 w4 where
    new: "Connection_new X n True w = (Inr (m_rra ep), w1)" "Connection_new X n False w1 = (Inr (m_rma ep), w2)"
      "PhysicalBuffer_new X w2 = (Inr (buffer ep), w3)"
      "RingBuffer_new X (get_port (m_rma ep)) (get_handle (m_rma ep)) 1 hc w3 = (Inr (hicann_ring_buffer ep), w4)"
      "RingBuffer_new X (get_port (m_rma ep)) (get_handle (m_rma ep)) 2048 tc w4 = (Inr (trace_ring_buffer ep), v)"
    unfolding built_def case_result by auto
  from PhysicalBuffer_new_gains [OF new(3)] obtain fd where
    b: "gains X w2 w3 (Pmap_fd fd # rev (given_back (buffer_releases (buffer ep))))" by blast
  note g = gains_trans [OF gains_trans [OF gains_trans [OF gains_trans [OF Connection_new_gains [OF new(1)]
      Connection_new_gains [OF new(2)]] b] RingBuffer_new_gains [OF new(4)]] RingBuffer_new_gains [OF new(5)]]
  from ping_silent [OF v(2)] have w': "extends v w'" "filter is_acquire (asked v w') = []"
    by (simp_all add: exchanged_nil)
  have "all_but_one_descriptor (rev (given_back (conn_releases (m_rra ep))) @ rev (given_back (conn_releases (m_rma ep)))
      @ (Pmap_fd fd # rev (given_back (buffer_releases (buffer ep))))
      @ rev (given_back (ring_releases (hicann_ring_buffer ep))) @ rev (given_back (ring_releases (trace_ring_buffer ep))))
      (given_back (concat (Endpoint_releases ep)))"
    by (simp add: all_but_one_descriptor_def Endpoint_releases_def given_back_def conn_releases_def
        buffer_releases_def ring_releases_def)
  with g w' show ?thesis using extends_trans [OF _ w'(1), of w] by (auto simp: gains_def)
qed

text \<open>
  The whole life: construction, any use, destruction. Nothing is acquired after the constructor and
  nothing is given back before the destructor.
\<close>

lemma session_releases:
  assumes "Endpoint_new X ts hs tc hc n w = Some (Inr ep, (p, w1))"
    and "endpoint_run X (ep, w1) (ep', w2)"
    and "Endpoint_delete X ts' hs' ep' w2 = Some (Inr (), (p', w3))"
  shows "extends w w3 \<and> all_but_one_descriptor (acquired X w (asked w w3)) (given_back (asked w w3))
    \<and> released w w2 = [] \<and> filter is_acquire (asked w1 w3) = []"
proof -
  from Endpoint_new_outcome [OF assms(1)] have w1: "extends w w1" "released w w1 = []"
    by (auto simp: new_outcome_def outcome_from_def)
  from Endpoint_new_gains [OF assms(1)] obtain v rs where g: "gains X w v rs" "extends v w1"
    "filter is_acquire (asked v w1) = []" "all_but_one_descriptor rs (given_back (concat (Endpoint_releases ep)))"
    by blast
  from endpoint_run_silent [OF assms(2)] endpoint_wf_new [OF assms(1)]
  have w2: "extends w1 w2" "released w1 w2 = []" "filter is_acquire (asked w1 w2) = []"
    "Endpoint_releases ep' = Endpoint_releases ep" by (simp_all add: exchanged_nil)
  note d = assms(3) [unfolded Endpoint_delete_def]
  from endpoint_dtor.appends [OF d] endpoint_dtor.returns [OF d] endpoint_dtor.acquires_nothing [OF d]
  have w3: "extends w2 w3" "released w2 w3 = concat (Endpoint_releases ep)" "filter is_acquire (asked w2 w3) = []"
    by (simp_all add: w2(4))
  note ww2 = released_nil_trans [OF w1 w2(1,2)]
  have w13: "extends w1 w3" "filter is_acquire (asked w1 w3) = []"
    using extends_trans [OF w2(1) w3(1)] asked_trans [OF w2(1) w3(1)] w2(3) w3(3) by simp_all
  have "filter is_acquire (asked v w3) = []"
    using asked_trans [OF g(2) w13(1)] g(3) w13(2) by simp
  with gains_nothing_more [OF g(1) extends_trans [OF g(2) w13(1)]]
  have life: "extends w w3" "acquired X w (asked w w3) = rs" by simp_all
  have "given_back (asked w w3) = given_back (concat (Endpoint_releases ep))"
    using released_trans [OF ww2 [THEN conjunct1] w3(1)] ww2 w3(2)
    by (simp add: given_back_released [of w w3])
  with g(4) life ww2 w13(2) show ?thesis by simp
qed

end
