(* ===== verification/Spec2Isabelle.thy ===== *)
theory Spec2Isabelle
  imports Poller_Start Poller_Affinity Concurrent_Link Link_Liveness Endpoint_Session Rra_Session Ownership
begin

text \<open>
  A verification development for nhtl-extoll, the host side of the neuromorphic hardware
  transport layer over the EXTOLL network. All paths are relative to \<^verbatim>\<open>src/\<close>.

  \<^bold>\<open>The program.\<close> An \<^verbatim>\<open>Endpoint\<close> connects the host to one FPGA. It owns two librma2
  connections (register access, RRA, and data, RMA), a polling thread that counts the notifications
  the FPGA sends, a physically contiguous buffer (RRA responses and data to send) and two ring
  buffers the FPGA writes received data into. \<^verbatim>\<open>configure_fpga\<close> writes the addresses and sizes
  into the register files of the FPGA, and \<^verbatim>\<open>get_node_ids\<close> finds the FPGAs of the network.

  \<^bold>\<open>Theories, in the order of the dependencies.\<close>
  \<^item> \<open>Nhtl_Prelude\<close>: machine integers, the bit-field idioms of the register files and their laws,
    the contracts of a field accessor as locales, sequencing of fallible calls.
  \<^item> \<open>Exceptions\<close>: \<^verbatim>\<open>exception.h\<close>, \<^verbatim>\<open>exception.cpp\<close>, \<^verbatim>\<open>throw_on_error.h\<close>; class hierarchy as an order.
  \<^item> \<open>Environment\<close>: librma2, kernel, network card and FPGA as one parameter that answers calls and
    may write the mapped buffer; the world records every call, so theorems speak about what was
    asked and in which order. \<open>Releases\<close> reads ownership off that log, with the answers replayed, and
    states the contract of a destructor as a locale.
  \<^item> \<open>Simulations\<close>: the contract of a step relation with an invariant, and of a simulation of an
    abstract system, as locales; the state machines below are their interpretations.
  \<^item> \<open>Register_Files\<close>, \<open>Register_Laws\<close>: the seventeen classes of \<^verbatim>\<open>configure_fpga.h\<close> with every
    constructor, getter and setter; which accessors keep the promise of the class documentation
    and which do not (\<^verbatim>\<open>Info\<close> ORs, the notification behaviours clobber).
  \<^item> \<open>Notification_Poller\<close>, \<open>Poller_Threads\<close>: \<^verbatim>\<open>notification_poller.cpp\<close>, first each operation by
    itself, then the two threads interleaved at the level of single loads and stores of both
    counters and of the running flag, with mutual exclusion, conservation of packets and responses,
    refinement of an atomic counter, and that neither a consumer (ten steps) nor the destructor (eight
    steps) waits for ever. \<open>Poller_Start\<close> is the construction, where the polling thread runs before all
    members are initialised, and which of them are safe under which order of declaration;
    \<open>Poller_Affinity\<close> the CPU affinity that the
    constructor and the polling thread set from a shared, uninitialised member.
  \<^item> \<open>Physical_Buffer\<close>, \<open>Ring_Buffer\<close>, \<open>Ring_Protocol\<close>: \<^verbatim>\<open>buffer.cpp\<close>. \<open>Ring_Protocol\<close> runs a ring
    buffer against a model of the FPGA that writes words, sends notifications and respects the
    words acknowledged, counting only acknowledgements of class 0 under the identifier of the trace
    ring; in-order delivery and no overrun are invariants of the reachable states. \<open>Receive_Call\<close> takes
    one call of \<^verbatim>\<open>receive\<close> apart into phases that FPGA and polling thread may interrupt.
    \<open>Concurrent_Link\<close> runs the same with the two threads interleaved at loads and stores and shows
    that this refines it and that all counts are conserved; \<open>Link_Liveness\<close> shows that the flow control never blocks for good,
    \<open>Sized_Link\<close> that delivery needs an FPGA that wraps at exactly the size of the ring.
  \<^item> \<open>Connection\<close>, \<open>Endpoint\<close>: \<^verbatim>\<open>connection.cpp\<close>. Construction and destruction are modelled with the
    order of the members and stack unwinding. \<open>Endpoint_Access\<close> has the ping and the register
    access, the interface \<open>register_port\<close>, extended by \<open>register_device\<close> for an FPGA whose registers
    answer while it is live and whose readable addresses are a parameter, since the others answer with
    old data (two kinds of FPGA are interpretations of it); \<open>Endpoint_Lifecycle\<close> shows what construction
    and destruction give back.
  \<^item> \<open>Configure_Fpga\<close>: both overloads of \<^verbatim>\<open>configure_fpga\<close>, against an independent list of the
    writes that have to arrive.
  \<^item> \<open>Endpoint_States\<close>: the operations of an endpoint, the turns of the polling thread and the writes
    of the FPGA as one step relation; the type of a live endpoint, which construction gives and
    every step keeps, and that no step acquires a resource or gives one back. \<open>Ownership\<close> sets what the
    constructors acquire, by the answers they got, against what the destructors give back.
  \<^item> \<open>Shared_Counter\<close>: what follows from the two rings of an endpoint sharing one counter, and from
    a reset that leaves it alone. \<open>Rra_Queue\<close>: reads of readable registers on an FPGA that answers in order, and
    what one answer left over by a ping does to all later reads; \<open>Rra_Session\<close> runs construction,
    configuration and reads on such an FPGA and shows that they stay in step.
  \<^item> \<open>Configured_Link\<close>: configuration and data path together, from the size register that
    \<^verbatim>\<open>configure_fpga\<close> writes to the words the host receives, on an FPGA whose trace engine takes start
    and size over when \<^verbatim>\<open>TraceBufferInit\<close> is written with a 1. \<open>Endpoint_Session\<close> lets a client use a
    configured endpoint beside the polling thread and the FPGA: calls of \<^verbatim>\<open>receive\<close> on the trace ring,
    taken apart into phases, register accesses that do not restart that ring, sends and pings; the link
    is a simulation of it. Receiving from the other ring, resets and further configurations are left out
    there, because the shared counter breaks delivery (\<open>Shared_Counter\<close>); \<open>Endpoint_States\<close> has them.
  \<^item> \<open>Node_Ids\<close>: \<^verbatim>\<open>get_node_ids.cpp\<close>; the output of the child processes, the pipes to them and the
    environment variable are parameters. The scan by positions is proved equal to a recursive scanner.
  \<^item> \<open>Client_Use\<close>: which exceptions a client can see, the assertion of the hardware test
    \<^verbatim>\<open>ConfigureFPGA\<close> as a theorem, filling the send buffer and sending, moved objects.
  \<^item> this theory: the whole life of an endpoint, whatever is done with it in between.

  \<^bold>\<open>Correspondence.\<close> A class is a record with the members' names (prefixed where two classes share
  one), a constructor \<open>C_new\<close>, a destructor \<open>C_delete\<close>; an overloaded accessor that writes has
  \<open>set_\<close> before the field. Exceptions, \<^verbatim>\<open>std::terminate\<close> and undefined behaviour are the values of
  \<open>failure\<close>. A call that changes only the world is a \<open>comp\<close>.

  \<^bold>\<open>Loops.\<close> The receive loop and the line and listing scans have termination proofs; the loops that
  drain notifications or packets in destructors may run forever and are partial functions into
  \<open>option\<close>, with theorems that they return when the queue is finite. The polling thread's loop takes
  the number of turns as an argument; the ping is bounded by twenty probes in the source itself.

  \<^bold>\<open>Not modelled.\<close> A failure to create the thread, exhausted memory (a vector too long for its type
  is an exception of the model, \<^verbatim>\<open>std::bad_alloc\<close> is not), diagnostic output, the move constructor of
  \<^verbatim>\<open>Endpoint\<close> (defaulted, but deleted by the language because of the mutex in the poller), the tests
  and the build script. Time is the argument of the sleep calls. A node id
  and a vpid are 16-bit words; ports, handles and regions are 64-bit words, zero for the null pointer.
\<close>

section \<open>The life of an endpoint\<close>

text \<open>
  C13: whatever a client does with an endpoint between its construction and its destruction (any
  sequence of configurations, receives, resets, register accesses, sends and pings, successful or
  not, with the polling thread and the FPGA at work beside it): when the destructor returns, the
  object has given back, each once and in the reverse order, everything it acquired over its whole
  life - the ports librma2 opened, the handles, the mapping, the memory and the regions, as librma2
  and the kernel answered its calls - except for exactly one resource, the file descriptor of the
  pmap device, which is never closed. Nothing is acquired after the constructor, and nothing is given
  back before the destructor.
\<close>

theorem any_session_releases_everything:
  assumes "Endpoint_new X ts hs tc hc n w = Some (Inr ep, (p, w1))"
    and "endpoint_run X (ep, w1) (ep', w2)"
    and "Endpoint_delete X ts' hs' ep' w2 = Some (Inr (), (p', w3))"
  shows "extends w w3
    \<and> given_back (asked w w3) = rev (filter (\<lambda>r. \<not> is_pmap_fd r) (acquired X w (asked w w3)))
    \<and> (\<exists>fd. filter is_pmap_fd (acquired X w (asked w w3)) = [Pmap_fd fd])
    \<and> released w w2 = [] \<and> filter is_acquire (asked w1 w3) = []"
proof -
  have "\<exists>fd. filter is_pmap_fd rs = [Pmap_fd fd]" if "length (filter is_pmap_fd rs) = 1" for rs
  proof -
    from that obtain r where r: "filter is_pmap_fd rs = [r]" by (auto simp: length_Suc_conv)
    then have "is_pmap_fd r" by (metis filter_eq_ConsD)
    with r show ?thesis by (cases r) auto
  qed
  with session_releases [OF assms] show ?thesis by (simp add: all_but_one_descriptor_def)
qed

text \<open>In particular when all that happens in between is one configuration.\<close>

theorem session_releases_everything:
  assumes "Endpoint_new X ts hs tc hc n w = Some (Inr ep, (p, w1))"
    and "configure_fpga_with X config (ep, w1) = (r, (ep', w2))"
    and "Endpoint_delete X ts hs ep' w2 = Some (Inr (), (p', w3))"
  shows "all_but_one_descriptor (acquired X w (asked w w3)) (given_back (asked w w3))"
  using session_releases [OF assms(1) _ assms(3)] endpoint_step.configure [OF assms(2)]
  by (simp add: endpoint_run_def r_into_rtranclp)

text \<open>A concrete life: the ping finds its answer, the configuration runs, nothing is left pending.\<close>

theorem any_session_releases_everything_witness:
  "\<exists>ep' w1 w2 p' w3.
     Endpoint_new queue_ext (\<lambda>i. []) (\<lambda>i. []) (\<lambda>_. 0) (\<lambda>_. 0) 2 one_pending
       = Some (Inr ep_session, (NotificationPoller_new 7, w1))
   \<and> endpoint_run queue_ext (ep_session, w1) (ep', w2)
   \<and> Endpoint_delete queue_ext (\<lambda>i. []) (\<lambda>i. []) ep' w2 = Some (Inr (), (p', w3))
   \<and> given_back (asked one_pending w3) =
       rev (filter (\<lambda>r. \<not> is_pmap_fd r) (acquired queue_ext one_pending (asked one_pending w3)))
   \<and> (\<exists>fd. filter is_pmap_fd (acquired queue_ext one_pending (asked one_pending w3)) = [Pmap_fd fd])"
proof -
  let ?ep = "reset_rings ep_session"
  from session_starts obtain w1 where 1: "Endpoint_new queue_ext (\<lambda>i. []) (\<lambda>i. []) (\<lambda>_. 0) (\<lambda>_. 0) 2 one_pending
     = Some (Inr ep_session, (NotificationPoller_new 7, w1))" "w_env w1 = 0" by blast
  from session_configures [OF 1(2)] obtain w2 where
    2: "configure_fpga_with queue_ext config7 (ep_session, w1) = (Inr (), (?ep, w2))" "w_env w2 = 0" by blast
  have run: "endpoint_run queue_ext (ep_session, w1) (?ep, w2)"
    using endpoint_step.configure [OF 2(1)] by (simp add: endpoint_run_def)
  have "poller ?ep = NotificationPoller_new 7" by (simp add: reset_rings_def ep_session_def)
  with idle_dtors [OF 2(2), of ?ep 7] obtain p' w3 where
    3: "Endpoint_delete queue_ext (\<lambda>i. []) (\<lambda>i. []) ?ep w2 = Some (Inr (), (p', w3))"
    by (auto simp: Endpoint_delete_def reset_rings_def ep_session_def)
  note all = any_session_releases_everything [OF 1(1) run 3]
  show ?thesis
    by (intro exI [of _ ?ep] exI [of _ w1] exI [of _ w2] exI [of _ p'] exI [of _ w3]) (intro conjI 1(1) run 3; simp add: all)
qed

end
